theory Spec2Isabelle
  imports Complex_Main "HOL-Library.Word"
begin

unbundle bit_operations_syntax

section \<open>Numbers and vectors\<close>

text \<open>
  A value of the C++ type \<open>float\<close> is the real number it stands for: comparisons, branches
  and the shape of every formula are those of the source. The arithmetic of the hardness remap
  and of the factor stages is rounded to single precision (section Single-precision
  arithmetic); the geometry around them is exact. \<open>char\<close> is an 8-bit word, \<open>int\<close> and
  the enumerations built on it are \<open>int\<close>.
\<close>

type_synonym float3 = "real \<times> real \<times> real"

fun v3_get :: "float3 \<Rightarrow> nat \<Rightarrow> real" where
  "v3_get (x, y, z) i = (if i = 0 then x else if i = 1 then y else z)"


record Bounds3 =
  bmin :: float3
  bmax :: float3

text \<open>
  Modelled from the spec: \<open>symmetry_flip\<close> is declared outside the files at hand. The
  symmetry bitmask has bit 0 for X, bit 1 for Y and bit 2 for Z; a point is reflected
  through every plane whose bit is set (bitmask 1 sends (1,0,0) to (-1,0,0)).
\<close>

fun symmetry_flip :: "float3 \<Rightarrow> int \<Rightarrow> float3" where
  "symmetry_flip (x, y, z) symm =
     (if bit symm 0 then - x else x,
      if bit symm 1 then - y else y,
      if bit symm 2 then - z else z)"

section \<open>Symmetry iteration\<close>

text \<open>\<open>SCULPT_is_symmetry_iteration_valid(char i, char symm)\<close>.\<close>

definition SCULPT_is_symmetry_iteration_valid :: "8 word \<Rightarrow> 8 word \<Rightarrow> bool" where
  "SCULPT_is_symmetry_iteration_valid i symm \<longleftrightarrow>
     i = 0 \<or> ((symm AND i) \<noteq> 0 \<and> (symm \<noteq> 5 \<or> i \<noteq> 3) \<and> (symm \<noteq> 6 \<or> \<not> (i = 3 \<or> i = 5)))"

section \<open>Symmetry and tiling driver\<close>

record Paint =
  symmetry_flags :: int
  tile_offset :: float3

record Sculpt =
  paint :: Paint
  radial_symm :: "int list"
  flags :: int

text \<open>
  The fields of \<open>StrokeCache\<close> that decide which passes run and where. The matrix
  \<open>symm_rot_mat\<close> is kept as the axis and the angle it is built from by
  \<open>rotate_m4\<close> (axis 0: the identity). The other per-pass values that
  \<open>SCULPT_cache_calc_brushdata_symm\<close> derives (last location, grab delta, view normal,
  initial normal, gravity, rake rotation) are not read by the driver and are left out.
\<close>

record StrokeCache =
  radius :: real
  true_location :: float3
  true_initial_location :: float3
  location :: float3
  initial_location :: float3
  plane_offset :: float3
  mirror_symmetry_pass :: int
  radial_symmetry_pass :: int
  tile_pass :: int
  symm_rot_axis :: char
  symm_rot_angle :: real
  symmetry :: "8 word"

text \<open>
  The object being sculpted: its stroke cache, and the sequence of brush-action
  invocations made so far, each recorded as the cache the action was called with.
\<close>

record Object =
  cache :: StrokeCache
  invocations :: "StrokeCache list"

text \<open>
  The brush action is a callback. Its effect on the mesh is outside the driver; what the
  driver determines is the cache each call sees, which this action records.
\<close>

definition log_action :: "Object \<Rightarrow> Object" where
  "log_action ob = ob\<lparr>invocations := invocations ob @ [cache ob]\<rparr>"

text \<open>Conversion of a \<open>float\<close> to \<open>int\<close>: truncation towards zero.\<close>

definition trunc_int :: "real \<Rightarrow> int" where
  "trunc_int r = (if 0 \<le> r then \<lfloor>r\<rfloor> else \<lceil>r\<rceil>)"

text \<open>
  \<open>SCULPT_cache_calc_brushdata_symm\<close>. The parameter \<open>rot\<close> stands for
  \<open>mul_m4_v3\<close> by the matrix \<open>rotate_m4\<close> builds, both library functions.
\<close>

definition SCULPT_cache_calc_brushdata_symm ::
  "(char \<Rightarrow> real \<Rightarrow> float3 \<Rightarrow> float3) \<Rightarrow> StrokeCache \<Rightarrow> int \<Rightarrow> char \<Rightarrow> real \<Rightarrow> StrokeCache" where
  "SCULPT_cache_calc_brushdata_symm rot c symm axis angle =
     (let c = c\<lparr>location := symmetry_flip (true_location c) symm,
                  initial_location := symmetry_flip (true_initial_location c) symm\<rparr>;
          c = c\<lparr>symm_rot_axis := CHR 0x00, symm_rot_angle := 0, plane_offset := (0, 0, 0)\<rparr>;
          c = (if axis \<noteq> CHR 0x00 then c\<lparr>symm_rot_axis := axis, symm_rot_angle := angle\<rparr> else c)
      in if symm_rot_axis c = CHR 0x00 then c
         else c\<lparr>location := rot (symm_rot_axis c) (symm_rot_angle c) (location c)\<rparr>)"

text \<open>
  \<open>do_tiled\<close>. \<open>PAINT_TILE_X\<close> is a constant of a header outside the files at
  hand and is a parameter; \<open>bb\<close> is the object's bounding box.
\<close>

definition tile_start :: "int \<Rightarrow> Sculpt \<Rightarrow> Bounds3 \<Rightarrow> float3 \<Rightarrow> real \<Rightarrow> nat \<Rightarrow> int" where
  "tile_start PAINT_TILE_X sd bb orgLoc r dm =
     (let step = tile_offset (paint sd) in
      if (symmetry_flags (paint sd) AND push_bit dm PAINT_TILE_X) \<noteq> 0 \<and> v3_get step dm > 0
      then trunc_int ((v3_get (bmin bb) dm - v3_get orgLoc dm - r) / v3_get step dm)
      else 0)"

definition tile_end :: "int \<Rightarrow> Sculpt \<Rightarrow> Bounds3 \<Rightarrow> float3 \<Rightarrow> real \<Rightarrow> nat \<Rightarrow> int" where
  "tile_end PAINT_TILE_X sd bb orgLoc r dm =
     (let step = tile_offset (paint sd) in
      if (symmetry_flags (paint sd) AND push_bit dm PAINT_TILE_X) \<noteq> 0 \<and> v3_get step dm > 0
      then trunc_int ((v3_get (bmax bb) dm - v3_get orgLoc dm + r) / v3_get step dm)
      else 0)"

text \<open>The body of the innermost tile loop, at tile \<open>cur\<close>.\<close>

fun tile_offset_v3 :: "int \<times> int \<times> int \<Rightarrow> float3 \<Rightarrow> float3" where
  "tile_offset_v3 (c0, c1, c2) (s0, s1, s2) = (real_of_int c0 * s0, real_of_int c1 * s1, real_of_int c2 * s2)"

fun add_v3 :: "float3 \<Rightarrow> float3 \<Rightarrow> float3" where
  "add_v3 (a0, a1, a2) (b0, b1, b2) = (a0 + b0, a1 + b1, a2 + b2)"

definition do_tile ::
  "(Object \<Rightarrow> Object) \<Rightarrow> float3 \<Rightarrow> float3 \<Rightarrow> float3 \<Rightarrow> int \<times> int \<times> int \<Rightarrow> Object \<Rightarrow> Object" where
  "do_tile action step orgLoc original_initial_location cur ob =
     (if cur = (0, 0, 0) then ob
      else
        let c = cache ob;
            c = c\<lparr>tile_pass := tile_pass c + 1\<rparr>;
            c = c\<lparr>location := add_v3 (tile_offset_v3 cur step) orgLoc,
                     plane_offset := tile_offset_v3 cur step,
                     initial_location := add_v3 (tile_offset_v3 cur step) original_initial_location\<rparr>
        in action (ob\<lparr>cache := c\<rparr>))"

definition do_tiled :: "int \<Rightarrow> Sculpt \<Rightarrow> Bounds3 \<Rightarrow> (Object \<Rightarrow> Object) \<Rightarrow> Object \<Rightarrow> Object" where
  "do_tiled PAINT_TILE_X sd bb action ob =
     (let r = radius (cache ob);
          step = tile_offset (paint sd);
          orgLoc = location (cache ob);
          original_initial_location = initial_location (cache ob);
          start = tile_start PAINT_TILE_X sd bb orgLoc r;
          endt = tile_end PAINT_TILE_X sd bb orgLoc r;
          ob = action (ob\<lparr>cache := (cache ob)\<lparr>tile_pass := 0\<rparr>\<rparr>)
      in fold (\<lambda>c0. fold (\<lambda>c1. fold (\<lambda>c2.
                 do_tile action step orgLoc original_initial_location (c0, c1, c2))
               [start 2..endt 2]) [start 1..endt 1]) [start 0..endt 0] ob)"

text \<open>\<open>do_radial_symmetry\<close>: the passes \<open>1 \<le> i < radial_symm[axis - 'X']\<close>.\<close>

definition do_radial_symmetry ::
  "int \<Rightarrow> (char \<Rightarrow> real \<Rightarrow> float3 \<Rightarrow> float3) \<Rightarrow> Sculpt \<Rightarrow> Bounds3 \<Rightarrow> (Object \<Rightarrow> Object) \<Rightarrow>
   int \<Rightarrow> char \<Rightarrow> Object \<Rightarrow> Object" where
  "do_radial_symmetry PAINT_TILE_X rot sd bb action symm axis ob =
     (let n = radial_symm sd ! (of_char axis - of_char CHR ''X'') in
      fold (\<lambda>i ob.
              let angle = 2 * pi * real_of_int i / real_of_int n;
                  c = (cache ob)\<lparr>radial_symmetry_pass := i\<rparr>;
                  c = SCULPT_cache_calc_brushdata_symm rot c symm axis angle
              in do_tiled PAINT_TILE_X sd bb action (ob\<lparr>cache := c\<rparr>))
           [1..n - 1] ob)"

text \<open>
  \<open>do_symmetrical_brush_actions\<close>; \<open>symm\<close> is the value of
  \<open>SCULPT_mesh_symmetry_xyz_get\<close>, a \<open>char\<close> read here as unsigned (for the bitmasks 0
  to 7 that the three mirror bits form, signed and unsigned agree). The brush strength it stores
  first plays no part in the enumeration and is left out.
\<close>

definition do_symmetrical_brush_actions ::
  "int \<Rightarrow> (char \<Rightarrow> real \<Rightarrow> float3 \<Rightarrow> float3) \<Rightarrow> Sculpt \<Rightarrow> Bounds3 \<Rightarrow> 8 word \<Rightarrow>
   (Object \<Rightarrow> Object) \<Rightarrow> Object \<Rightarrow> Object" where
  "do_symmetrical_brush_actions PAINT_TILE_X rot sd bb symm action ob =
     fold (\<lambda>i ob.
             if \<not> SCULPT_is_symmetry_iteration_valid (word_of_int i) symm then ob
             else
               let c = (cache ob)\<lparr>mirror_symmetry_pass := i, radial_symmetry_pass := 0\<rparr>;
                   c = SCULPT_cache_calc_brushdata_symm rot c i (CHR 0x00) 0;
                   ob = do_tiled PAINT_TILE_X sd bb action (ob\<lparr>cache := c\<rparr>);
                   ob = do_radial_symmetry PAINT_TILE_X rot sd bb action i CHR ''X'' ob;
                   ob = do_radial_symmetry PAINT_TILE_X rot sd bb action i CHR ''Y'' ob;
                   ob = do_radial_symmetry PAINT_TILE_X rot sd bb action i CHR ''Z'' ob
               in ob)
          [0..uint symm] (ob\<lparr>cache := (cache ob)\<lparr>symmetry := symm\<rparr>\<rparr>)"

text \<open>The mirror/radial combination a call of the brush action belongs to.\<close>

definition combination :: "StrokeCache \<Rightarrow> int \<times> char \<times> int" where
  "combination c = (mirror_symmetry_pass c, symm_rot_axis c, radial_symmetry_pass c)"

section \<open>Single-precision arithmetic\<close>

text \<open>
  Where the value of an arithmetic expression matters, a \<open>float\<close> is the real number it
  stands for and every operation of the source is the exact operation followed by rounding
  to the nearest binary32 value, ties to even, each operation rounded on its own. The binary32
  values have 24 significant bits and exponents from -126 (below that the spacing stays
  \<open>2\<^sup>-\<^sup>1\<^sup>4\<^sup>9\<close>); overflow to infinity and NaN are not modelled.
\<close>

definition pow2 :: "int \<Rightarrow> real" where
  "pow2 e = (if 0 \<le> e then 2 ^ nat e else 1 / 2 ^ nat (- e))"

definition round_even :: "real \<Rightarrow> int" where
  "round_even t =
     (if t - of_int \<lfloor>t\<rfloor> < 1 / 2 then \<lfloor>t\<rfloor>
      else if t - of_int \<lfloor>t\<rfloor> > 1 / 2 then \<lfloor>t\<rfloor> + 1
      else if even \<lfloor>t\<rfloor> then \<lfloor>t\<rfloor> else \<lfloor>t\<rfloor> + 1)"

definition float32_exponent :: "real \<Rightarrow> int" where
  "float32_exponent x = max \<lfloor>log 2 \<bar>x\<bar>\<rfloor> (- 126)"

definition float32_round :: "real \<Rightarrow> real" where
  "float32_round x =
     (if x = 0 then 0
      else let q = pow2 (float32_exponent x - 23) in of_int (round_even (x / q)) * q)"

definition f_add :: "real \<Rightarrow> real \<Rightarrow> real" where
  "f_add a b = float32_round (a + b)"

definition f_sub :: "real \<Rightarrow> real \<Rightarrow> real" where
  "f_sub a b = float32_round (a - b)"

definition f_mul :: "real \<Rightarrow> real \<Rightarrow> real" where
  "f_mul a b = float32_round (a * b)"

definition f_div :: "real \<Rightarrow> real \<Rightarrow> real" where
  "f_div a b = float32_round (a / b)"

section \<open>Structure of the invocation sequence\<close>

text \<open>
  The tile loops extend the invocation sequence by calls of one combination \<open>k\<close>, each
  with a positive \<open>tile_pass\<close>, and leave the cache in that combination.
\<close>

definition tiles_rel :: "int \<times> char \<times> int \<Rightarrow> Object \<Rightarrow> Object \<Rightarrow> bool" where
  "tiles_rel k ob ob' \<longleftrightarrow>
     (\<exists>es. invocations ob' = invocations ob @ es \<and>
           (\<forall>e\<in>set es. combination e = k \<and> 0 < tile_pass e) \<and>
           combination (cache ob') = k \<and> 0 \<le> tile_pass (cache ob'))"

text \<open>
  What one call of \<open>do_tiled\<close> contributes: first the un-tiled invocation of the
  combination, then its tiles.
\<close>

definition tiled_block :: "int \<times> char \<times> int \<Rightarrow> StrokeCache list \<Rightarrow> bool" where
  "tiled_block k es \<longleftrightarrow>
     (\<exists>e0 rest. es = e0 # rest \<and> combination e0 = k \<and> tile_pass e0 = 0 \<and>
        (\<forall>e\<in>set rest. combination e = k \<and> 0 < tile_pass e))"

text \<open>A sequence of invocations made of one such block for each combination of a list, in order.\<close>

fun blocks :: "(int \<times> char \<times> int) list \<Rightarrow> StrokeCache list \<Rightarrow> bool" where
  "blocks [] es \<longleftrightarrow> es = []"
| "blocks (k # ks) es \<longleftrightarrow> (\<exists>b es'. es = b @ es' \<and> tiled_block k b \<and> blocks ks es')"

text \<open>Running a part of the driver appends the blocks of the combinations \<open>ks\<close>.\<close>

definition appends :: "(Object \<Rightarrow> bool) \<Rightarrow> (int \<times> char \<times> int) list \<Rightarrow> Object \<Rightarrow> Object \<Rightarrow> bool" where
  "appends I ks ob ob' \<longleftrightarrow> (\<exists>es. invocations ob' = invocations ob @ es \<and> blocks ks es \<and> I ob')"

text \<open>The combinations in the order in which the driver goes through them.\<close>

definition radial_combinations :: "Sculpt \<Rightarrow> int \<Rightarrow> char \<Rightarrow> (int \<times> char \<times> int) list" where
  "radial_combinations sd m axis =
     map (\<lambda>i. (m, axis, i)) [1..radial_symm sd ! (of_char axis - of_char CHR ''X'') - 1]"

definition pass_combinations :: "Sculpt \<Rightarrow> 8 word \<Rightarrow> int \<Rightarrow> (int \<times> char \<times> int) list" where
  "pass_combinations sd symm i =
     (if SCULPT_is_symmetry_iteration_valid (word_of_int i) symm
      then (i, CHR 0x00, 0) # radial_combinations sd i CHR ''X'' @ radial_combinations sd i CHR ''Y''
             @ radial_combinations sd i CHR ''Z''
      else [])"

definition all_combinations :: "Sculpt \<Rightarrow> 8 word \<Rightarrow> (int \<times> char \<times> int) list" where
  "all_combinations sd symm = concat (map (pass_combinations sd symm) [0..uint symm])"

text \<open>
  A small stroke step used to exercise the driver: tiling along X with step 1 over the box
  from -1 to 1, a brush of radius 1/2 at the origin, and two radial repeats about X.
\<close>

definition example_sd :: Sculpt where
  "example_sd =
     \<lparr>paint = \<lparr>symmetry_flags = 16, tile_offset = (1, 1, 1)\<rparr>, radial_symm = [2, 1, 1], flags = 0\<rparr>"

definition example_cache :: StrokeCache where
  "example_cache =
     \<lparr>radius = 1 / 2, true_location = (0, 0, 0), true_initial_location = (0, 0, 0),
      location = (0, 0, 0), initial_location = (0, 0, 0), plane_offset = (0, 0, 0),
      mirror_symmetry_pass = 0, radial_symmetry_pass = 0, tile_pass = 0,
      symm_rot_axis = CHR 0x00, symm_rot_angle = 0, symmetry = 0\<rparr>"

definition example_bb :: Bounds3 where
  "example_bb = \<lparr>bmin = (- 1, - 1, - 1), bmax = (1, 1, 1)\<rparr>"

section \<open>Vector helpers\<close>

text \<open>
  Modelled from the spec: the vector and matrix helpers of the math library
  (\<open>len_squared_v3v3\<close>, \<open>math::distance_squared\<close>, \<open>math::distance\<close>,
  \<open>len_v2v2\<close>, \<open>math::dot\<close>, \<open>math::clamp\<close>, \<open>mul_m4_v3\<close>,
  \<open>mul_v3_m4v3\<close>, \<open>math::transform_point\<close>) are defined outside the files at hand.
  They are the Euclidean distance, the dot product, the component-wise clamp and the
  affine map of a point by a matrix that the spec's point-sphere inclusion, front-face term
  and mirror-space transforms refer to. A \<open>float4x4\<close> is given by its three axis columns
  and its translation column; the bottom row is not read by any of these.
\<close>

type_synonym float4x4 = "float3 \<times> float3 \<times> float3 \<times> float3"

fun len_squared_v3v3 :: "float3 \<Rightarrow> float3 \<Rightarrow> real" where
  "len_squared_v3v3 (a0, a1, a2) (b0, b1, b2) = (a0 - b0)\<^sup>2 + (a1 - b1)\<^sup>2 + (a2 - b2)\<^sup>2"


definition distance :: "float3 \<Rightarrow> float3 \<Rightarrow> real" where
  "distance a b = sqrt (len_squared_v3v3 a b)"

fun len_v2v2 :: "float3 \<Rightarrow> float3 \<Rightarrow> real" where
  "len_v2v2 (a0, a1, a2) (b0, b1, b2) = sqrt ((a0 - b0)\<^sup>2 + (a1 - b1)\<^sup>2)"

text \<open>
  The dot product feeds the front-face factor, where its rounding matters: each product and
  each sum is rounded to single precision, accumulating from the first component.
\<close>

fun dot :: "float3 \<Rightarrow> float3 \<Rightarrow> real" where
  "dot (a0, a1, a2) (b0, b1, b2) = f_add (f_add (f_mul a0 b0) (f_mul a1 b1)) (f_mul a2 b2)"



fun transform_point :: "float4x4 \<Rightarrow> float3 \<Rightarrow> float3" where
  "transform_point ((a0, a1, a2), (b0, b1, b2), (c0, c1, c2), (t0, t1, t2)) (x, y, z) =
     (a0 * x + b0 * y + c0 * z + t0,
      a1 * x + b1 * y + c1 * z + t1,
      a2 * x + b2 * y + c2 * z + t2)"

definition identity_m4 :: float4x4 where
  "identity_m4 = ((1, 0, 0), (0, 1, 0), (0, 0, 1), (0, 0, 0))"

section \<open>Brush tests\<close>

text \<open>
  \<open>SculptBrushTest\<close>. \<open>clip_rv3d\<close> is a nullable pointer to the region view;
  the viewport clip test \<open>ED_view3d_clipping_test\<close> is a function of another module and
  is a parameter of everything that calls it.
\<close>

record 'rv SculptBrushTest =
  radius_squared :: real
  test_radius :: real
  test_location :: float3
  test_dist :: real
  test_mirror_symmetry_pass :: int
  test_radial_symmetry_pass :: int
  test_symm_rot_mat_inv :: float4x4
  clip_rv3d :: "'rv option"

definition sculpt_brush_test_clipping ::
  "('rv \<Rightarrow> float3 \<Rightarrow> bool \<Rightarrow> bool) \<Rightarrow> 'rv SculptBrushTest \<Rightarrow> float3 \<Rightarrow> bool" where
  "sculpt_brush_test_clipping ED_view3d_clipping_test test co =
     (case clip_rv3d test of
        None \<Rightarrow> False
      | Some rv3d \<Rightarrow>
          let symm_co = symmetry_flip co (test_mirror_symmetry_pass test);
              symm_co = (if test_radial_symmetry_pass test \<noteq> 0
                         then transform_point (test_symm_rot_mat_inv test) symm_co else symm_co)
          in ED_view3d_clipping_test rv3d symm_co True)"


text \<open>
  \<open>SCULPT_brush_test_cube\<close>. A division by a zero \<open>falloff_side\<close> is made a result of
  its own, so that reaching one of the two divisions with a zero divisor is visible.
\<close>

datatype error = DivisionByZero

fun abs_v3 :: "float3 \<Rightarrow> float3" where
  "abs_v3 (x, y, z) = (\<bar>x\<bar>, \<bar>y\<bar>, \<bar>z\<bar>)"

definition SCULPT_brush_test_cube ::
  "('rv \<Rightarrow> float3 \<Rightarrow> bool \<Rightarrow> bool) \<Rightarrow> 'rv SculptBrushTest \<Rightarrow> float3 \<Rightarrow> float4x4 \<Rightarrow> real \<Rightarrow>
   error + bool \<times> 'rv SculptBrushTest" where
  "SCULPT_brush_test_cube ED_view3d_clipping_test test co local roundness =
     (let side = 1 in
      if sculpt_brush_test_clipping ED_view3d_clipping_test test co then Inr (False, test)
      else
        let local_co = abs_v3 (transform_point local co);
            side = side + (1 - side) * roundness;
            hardness = 1 - roundness;
            constant_side = hardness * side;
            falloff_side = roundness * side
        in if \<not> (v3_get local_co 0 \<le> side \<and> v3_get local_co 1 \<le> side \<and> v3_get local_co 2 \<le> side)
           then Inr (False, test)
           else if min (v3_get local_co 0) (v3_get local_co 1) > constant_side
           then (if falloff_side = 0 then Inl DivisionByZero
                 else Inr (True, test\<lparr>test_dist :=
                        len_v2v2 (constant_side, constant_side, constant_side) local_co / falloff_side\<rparr>))
           else if max (v3_get local_co 0) (v3_get local_co 1) > constant_side
           then (if falloff_side = 0 then Inl DivisionByZero
                 else Inr (True, test\<lparr>test_dist :=
                        (max (v3_get local_co 0) (v3_get local_co 1) - constant_side) / falloff_side\<rparr>))
           else Inr (True, test\<lparr>test_dist := 0\<rparr>))"

section \<open>Node culling\<close>

text \<open>A tree node, with its current bounds and the bounds of its original coordinates.\<close>

record Node =
  node_bounds :: Bounds3
  original_BB :: Bounds3


text \<open>
  \<open>node_in_cylinder\<close>; \<open>dist_squared_ray_to_aabb_v3\<close> is a library function and a
  parameter.
\<close>

definition node_in_cylinder ::
  "('p \<Rightarrow> float3 \<Rightarrow> float3 \<Rightarrow> real) \<Rightarrow> 'p \<Rightarrow> Node \<Rightarrow> real \<Rightarrow> bool \<Rightarrow> bool" where
  "node_in_cylinder dist_squared_ray_to_aabb_v3 ray_dist_precalc node radius_sq original =
     (let bounds = (if original then original_BB node else node_bounds node);
          dist_sq = dist_squared_ray_to_aabb_v3 ray_dist_precalc (bmin bounds) (bmax bounds)
      in dist_sq < radius_sq \<or> True)"

section \<open>Hardness\<close>

text \<open>
  \<open>sculpt_apply_hardness\<close>, with \<open>cache.radius\<close> and \<open>cache.paint_brush.hardness\<close>
  as its first two arguments. Every arithmetic operation is the single-precision one.
\<close>

definition sculpt_apply_hardness :: "real \<Rightarrow> real \<Rightarrow> real \<Rightarrow> real" where
  "sculpt_apply_hardness cache_radius hardness input_len =
     (let p = f_div input_len cache_radius in
      if p < hardness then 0
      else if hardness = 1 then cache_radius
      else let p = f_div (f_sub p hardness) (f_sub 1 hardness) in f_mul p cache_radius)"

text \<open>
  Modelled from the spec: \<open>math::rcp\<close> is defined outside the files at hand. It is the
  reciprocal \<open>1.0f / x\<close>, by which the array remap divides by the radius and by
  \<open>1 - hardness\<close>.
\<close>

definition rcp :: "real \<Rightarrow> real" where
  "rcp x = f_div 1 x"

text \<open>\<open>apply_hardness_to_distances\<close>, returning the updated distances.\<close>

definition apply_hardness_to_distances :: "real \<Rightarrow> real \<Rightarrow> real list \<Rightarrow> real list" where
  "apply_hardness_to_distances r hardness distances =
     (if hardness = 0 then distances
      else if hardness = 1 then map (\<lambda>_. 0) distances
      else
        let threshold = f_mul hardness r;
            radius_inv = rcp r;
            hardness_inv_rcp = rcp (f_sub 1 hardness)
        in map (\<lambda>d. if d < threshold then 0
                     else let radius_factor = f_mul (f_sub (f_mul d radius_inv) hardness) hardness_inv_rcp
                          in f_mul radius_factor r) distances)"

section \<open>Factor stages\<close>

text \<open>
  Spans are lists, indexed from 0; a \<open>MutableSpan\<close> argument is returned updated.
  The callers assert that the index list and the factor list have the same length.
\<close>

definition filter_distances_with_radius :: "real \<Rightarrow> real list \<Rightarrow> real list \<Rightarrow> real list" where
  "filter_distances_with_radius r distances factors =
     fold (\<lambda>i factors. if distances ! i > r then factors[i := 0] else factors)
          [0..<length distances] factors"

text \<open>
  What the factor stages read of the session: the view context of the stroke cache
  (\<open>cache.vc\<close>) with its 3D view and region view, the current symmetry pass and the
  inverse radial rotation; and the session's own views, used when there is no cache.
  \<open>RV3D_CLIPPING_ENABLED\<close> is a macro of a header outside the files at hand and is a
  parameter, like the viewport clip test.
\<close>

record ('v, 'rv) PassCache =
  vc_v3d :: 'v
  vc_rv3d :: 'rv
  pass_mirror_symmetry_pass :: int
  pass_radial_symmetry_pass :: int
  pass_symm_rot_mat_inv :: float4x4

record ('v, 'rv) SculptSession =
  ss_cache :: "('v, 'rv) PassCache option"
  ss_v3d :: 'v
  ss_rv3d :: 'rv

definition filter_region_clip_factors ::
  "('v \<Rightarrow> 'rv \<Rightarrow> bool) \<Rightarrow> ('rv \<Rightarrow> float3 \<Rightarrow> bool \<Rightarrow> bool) \<Rightarrow> ('v, 'rv) SculptSession \<Rightarrow>
   float3 list \<Rightarrow> nat list \<Rightarrow> real list \<Rightarrow> real list" where
  "filter_region_clip_factors RV3D_CLIPPING_ENABLED ED_view3d_clipping_test ss positions verts factors =
     (let rv3d = (case ss_cache ss of Some c \<Rightarrow> vc_rv3d c | None \<Rightarrow> ss_rv3d ss);
          v3d = (case ss_cache ss of Some c \<Rightarrow> vc_v3d c | None \<Rightarrow> ss_v3d ss)
      in if \<not> RV3D_CLIPPING_ENABLED v3d rv3d then factors
         else
           let mirror_pass = (case ss_cache ss of Some c \<Rightarrow> pass_mirror_symmetry_pass c | None \<Rightarrow> 0);
               radial_pass = (case ss_cache ss of Some c \<Rightarrow> pass_radial_symmetry_pass c | None \<Rightarrow> 0);
               symm_rot_mat_inv = (case ss_cache ss of Some c \<Rightarrow> pass_symm_rot_mat_inv c
                                   | None \<Rightarrow> identity_m4)
           in fold (\<lambda>i factors.
                      let symm_co = symmetry_flip (positions ! (verts ! i)) mirror_pass;
                          symm_co = (if radial_pass \<noteq> 0 then transform_point symm_rot_mat_inv symm_co
                                     else symm_co)
                      in if ED_view3d_clipping_test rv3d symm_co True then factors[i := 0] else factors)
                   [0..<length verts] factors)"

text \<open>
  \<open>calc_front_face\<close>, for a plain mesh. The product \<open>factors[i] *= std::max(dot, 0.0f)\<close>
  is the single-precision one.
\<close>

definition calc_front_face :: "float3 \<Rightarrow> float3 list \<Rightarrow> nat list \<Rightarrow> real list \<Rightarrow> real list" where
  "calc_front_face view_normal vert_normals verts factors =
     fold (\<lambda>i factors.
             let d = dot view_normal (vert_normals ! (verts ! i))
             in factors[i := f_mul (factors ! i) (max d 0)])
          [0..<length verts] factors"

text \<open>
  \<open>fill_factor_from_hide_and_mask\<close>, for a plain mesh: the seed stage. The attributes
  \<open>.sculpt_mask\<close> and \<open>.hide_vert\<close> may be absent. The difference
  \<open>1.0f - span[verts[i]]\<close> is the single-precision one.
\<close>

record Mesh =
  sculpt_mask :: "real list option"
  hide_vert :: "bool list option"

definition fill_factor_from_hide_and_mask :: "Mesh \<Rightarrow> nat list \<Rightarrow> real list \<Rightarrow> real list" where
  "fill_factor_from_hide_and_mask mesh verts r_factors =
     (let r_factors =
            (case sculpt_mask mesh of
               Some mask_span \<Rightarrow> fold (\<lambda>i r_factors. r_factors[i := f_sub 1 (mask_span ! (verts ! i))])
                                [0..<length verts] r_factors
             | None \<Rightarrow> map (\<lambda>_. 1) r_factors)
      in case hide_vert mesh of
           Some hide_span \<Rightarrow> fold (\<lambda>i r_factors. if hide_span ! (verts ! i) then r_factors[i := 0] else r_factors)
                            [0..<length verts] r_factors
         | None \<Rightarrow> r_factors)"

section \<open>Interior neighbours\<close>

text \<open>
  \<open>Vector::append_non_duplicates\<close> of the container library: append unless present.
\<close>

definition append_non_duplicates :: "'a list \<Rightarrow> 'a \<Rightarrow> 'a list" where
  "append_non_duplicates xs x = (if x \<in> set xs then xs else xs @ [x])"

text \<open>
  \<open>vert_neighbors_get_mesh\<close>. \<open>vert_to_face\<close> lists the faces around each vertex;
  \<open>bke::mesh::face_find_adjacent_verts\<close>, which returns the two vertices next to
  \<open>vert\<close> in a face, belongs to another module and is a parameter (of the face index and
  the vertex). An empty \<open>hide_poly\<close> means that no face is hidden.
\<close>

definition vert_neighbors_get_mesh ::
  "(nat \<Rightarrow> nat \<Rightarrow> nat \<times> nat) \<Rightarrow> nat list list \<Rightarrow> bool list \<Rightarrow> nat \<Rightarrow> nat list" where
  "vert_neighbors_get_mesh face_find_adjacent_verts vert_to_face hide_poly vert =
     fold (\<lambda>face r_neighbors.
             if hide_poly \<noteq> [] \<and> hide_poly ! face then r_neighbors
             else
               let adj = face_find_adjacent_verts face vert
               in append_non_duplicates (append_non_duplicates r_neighbors (fst adj)) (snd adj))
          (vert_to_face ! vert) []"

text \<open>\<open>calc_vert_neighbors_interior\<close> for a plain mesh; \<open>boundary_verts\<close> is a bit span.\<close>

definition calc_vert_neighbors_interior ::
  "(nat \<Rightarrow> nat \<Rightarrow> nat \<times> nat) \<Rightarrow> nat list list \<Rightarrow> bool list \<Rightarrow> bool list \<Rightarrow> nat list \<Rightarrow> nat list list" where
  "calc_vert_neighbors_interior face_find_adjacent_verts vert_to_face boundary_verts hide_poly verts =
     map (\<lambda>vert.
            let neighbors = vert_neighbors_get_mesh face_find_adjacent_verts vert_to_face hide_poly vert
            in if boundary_verts ! vert
               then (if length neighbors = 2 then []
                     else filter (\<lambda>v. boundary_verts ! v) neighbors)
               else neighbors)
         verts"

text \<open>
  The dynamic-topology mesh. \<open>loops_of_vert\<close> gives, for each loop around a vertex, the
  vertices of the previous and of the next loop; it and \<open>BM_vert_is_boundary\<close> belong
  to the mesh library and are parameters. Both functions append to the vector they are given.
\<close>

definition vert_neighbors_get_bmesh :: "('v \<Rightarrow> ('v \<times> 'v) list) \<Rightarrow> 'v \<Rightarrow> 'v list \<Rightarrow> 'v list" where
  "vert_neighbors_get_bmesh loops_of_vert vert neighbors =
     fold (\<lambda>l neighbors.
             fold (\<lambda>other_vert neighbors.
                     if other_vert \<noteq> vert then neighbors @ [other_vert] else neighbors)
                  [fst l, snd l] neighbors)
          (loops_of_vert vert) neighbors"

definition vert_neighbors_get_interior_bmesh ::
  "('v \<Rightarrow> ('v \<times> 'v) list) \<Rightarrow> ('v \<Rightarrow> bool) \<Rightarrow> 'v \<Rightarrow> 'v list \<Rightarrow> 'v list" where
  "vert_neighbors_get_interior_bmesh loops_of_vert BM_vert_is_boundary vert neighbors =
     (let neighbors =
            fold (\<lambda>l neighbors.
                    fold (\<lambda>other_vert neighbors.
                            if other_vert \<noteq> vert then neighbors @ [other_vert] else neighbors)
                         [fst l, snd l] neighbors)
                 (loops_of_vert vert) neighbors
      in if BM_vert_is_boundary vert
         then (if length neighbors = 2 then []
               else filter (\<lambda>v. BM_vert_is_boundary v) neighbors)
         else neighbors)"

text \<open>\<open>calc_vert_neighbors_interior\<close> for the dynamic-topology mesh.\<close>

definition calc_vert_neighbors_interior_bmesh ::
  "('v \<Rightarrow> ('v \<times> 'v) list) \<Rightarrow> ('v \<Rightarrow> bool) \<Rightarrow> 'v list \<Rightarrow> 'v list list" where
  "calc_vert_neighbors_interior_bmesh loops_of_vert BM_vert_is_boundary verts =
     map (\<lambda>vert. vert_neighbors_get_interior_bmesh loops_of_vert BM_vert_is_boundary vert []) verts"

section \<open>Mirror clipping and axis locks\<close>










section \<open>The driver appends one block per combination\<close>

lemma tiles_rel_refl: "combination (cache ob) = k \<Longrightarrow> 0 \<le> tile_pass (cache ob) \<Longrightarrow> tiles_rel k ob ob"
  by (simp add: tiles_rel_def)

lemma tiles_rel_trans: "tiles_rel k a b \<Longrightarrow> tiles_rel k b c \<Longrightarrow> tiles_rel k a c"
  unfolding tiles_rel_def by fastforce

lemma tiles_rel_fold:
  assumes step: "\<And>x ob. combination (cache ob) = k \<Longrightarrow> 0 \<le> tile_pass (cache ob) \<Longrightarrow> tiles_rel k ob (f x ob)"
  shows "combination (cache ob) = k \<Longrightarrow> 0 \<le> tile_pass (cache ob) \<Longrightarrow> tiles_rel k ob (fold f xs ob)"
proof (induction xs arbitrary: ob)
  case Nil
  then show ?case by (simp add: tiles_rel_refl)
next
  case (Cons x xs)
  have a: "tiles_rel k ob (f x ob)" using step Cons.prems by blast
  then have "combination (cache (f x ob)) = k" "0 \<le> tile_pass (cache (f x ob))"
    by (auto simp: tiles_rel_def)
  then have "tiles_rel k (f x ob) (fold f xs (f x ob))" by (rule Cons.IH)
  with a show ?case by (auto intro: tiles_rel_trans)
qed

lemma do_tile_rel:
  "combination (cache ob) = k \<Longrightarrow> 0 \<le> tile_pass (cache ob) \<Longrightarrow>
   tiles_rel k ob (do_tile log_action step orgLoc oil cur ob)"
  by (auto simp: do_tile_def tiles_rel_def log_action_def combination_def Let_def)

lemma do_tiled_block:
  "\<exists>es. invocations (do_tiled P sd bb log_action ob) = invocations ob @ es \<and>
        tiled_block (combination (cache ob)) es \<and>
        combination (cache (do_tiled P sd bb log_action ob)) = combination (cache ob)"
proof -
  let ?k = "combination (cache ob)"
  let ?ob1 = "log_action (ob\<lparr>cache := (cache ob)\<lparr>tile_pass := 0\<rparr>\<rparr>)"
  have k1: "combination (cache ?ob1) = ?k" and t1: "0 \<le> tile_pass (cache ?ob1)"
    by (simp_all add: log_action_def combination_def)
  have "tiles_rel ?k ?ob1 (do_tiled P sd bb log_action ob)"
    unfolding do_tiled_def Let_def
    by (intro tiles_rel_fold do_tile_rel k1 t1)
  then obtain es where es: "invocations (do_tiled P sd bb log_action ob) = invocations ?ob1 @ es"
    "\<forall>e\<in>set es. combination e = ?k \<and> 0 < tile_pass e"
    "combination (cache (do_tiled P sd bb log_action ob)) = ?k"
    unfolding tiles_rel_def by blast
  have "invocations ?ob1 = invocations ob @ [(cache ob)\<lparr>tile_pass := 0\<rparr>]"
    by (simp add: log_action_def)
  with es have "invocations (do_tiled P sd bb log_action ob) = invocations ob @ ((cache ob)\<lparr>tile_pass := 0\<rparr> # es)"
    by simp
  moreover have "tiled_block ?k ((cache ob)\<lparr>tile_pass := 0\<rparr> # es)"
    using es(2) by (simp add: tiled_block_def combination_def)
  ultimately show ?thesis using es(3) by blast
qed

lemma blocks_append: "blocks ks1 es1 \<Longrightarrow> blocks ks2 es2 \<Longrightarrow> blocks (ks1 @ ks2) (es1 @ es2)"
proof (induction ks1 arbitrary: es1)
  case Nil
  then show ?case by simp
next
  case (Cons k ks1)
  from Cons.prems(1) obtain b es' where b: "es1 = b @ es'" "tiled_block k b" "blocks ks1 es'"
    by auto
  have "blocks (ks1 @ ks2) (es' @ es2)" using Cons.IH b(3) Cons.prems(2) by blast
  with b show ?case by auto
qed

lemma blocks_single: "tiled_block k b \<Longrightarrow> blocks [k] b"
  by simp

lemma appends_trans: "appends I ks1 a b \<Longrightarrow> appends J ks2 b c \<Longrightarrow> appends J (ks1 @ ks2) a c"
  unfolding appends_def using blocks_append by fastforce

lemma appends_weaken: "appends I ks a b \<Longrightarrow> appends (\<lambda>_. True) ks a b"
  by (auto simp: appends_def)

lemma appends_start: "appends I ks a b \<Longrightarrow> invocations a' = invocations a \<Longrightarrow> appends I ks a' b"
  by (auto simp: appends_def)

lemma appends_inv: "appends I ks a b \<Longrightarrow> I b"
  by (auto simp: appends_def)

lemma appends_fold:
  assumes step: "\<And>x ob. I ob \<Longrightarrow> appends I (g x) ob (f x ob)"
  shows "I ob \<Longrightarrow> appends I (concat (map g xs)) ob (fold f xs ob)"
proof (induction xs arbitrary: ob)
  case Nil
  then show ?case by (simp add: appends_def)
next
  case (Cons x xs)
  have a: "appends I (g x) ob (f x ob)" using step Cons.prems by blast
  then have "I (f x ob)" by (auto simp: appends_def)
  then have "appends I (concat (map g xs)) (f x ob) (fold f xs (f x ob))" by (rule Cons.IH)
  with a show ?case using appends_trans by fastforce
qed

lemma calc_brushdata_combination:
  "combination (SCULPT_cache_calc_brushdata_symm rot c symm axis angle) =
     (mirror_symmetry_pass c, axis, radial_symmetry_pass c)"
  by (simp add: SCULPT_cache_calc_brushdata_symm_def combination_def Let_def)

lemma do_tiled_appends:
  "appends (\<lambda>ob'. mirror_symmetry_pass (cache ob') = mirror_symmetry_pass (cache ob))
     [combination (cache ob)] ob (do_tiled P sd bb log_action ob)"
proof -
  obtain es where es: "invocations (do_tiled P sd bb log_action ob) = invocations ob @ es"
    "tiled_block (combination (cache ob)) es"
    "combination (cache (do_tiled P sd bb log_action ob)) = combination (cache ob)"
    using do_tiled_block by blast
  from es(3) have "mirror_symmetry_pass (cache (do_tiled P sd bb log_action ob)) = mirror_symmetry_pass (cache ob)"
    by (simp add: combination_def)
  with es show ?thesis unfolding appends_def by auto
qed

lemma do_radial_symmetry_appends:
  assumes "mirror_symmetry_pass (cache ob) = m"
  shows "appends (\<lambda>ob'. mirror_symmetry_pass (cache ob') = m) (radial_combinations sd m axis) ob
           (do_radial_symmetry P rot sd bb log_action symm axis ob)"
proof -
  let ?I = "\<lambda>ob'. mirror_symmetry_pass (cache ob') = m"
  let ?n = "radial_symm sd ! (of_char axis - of_char CHR ''X'')"
  let ?f = "\<lambda>i ob. do_tiled P sd bb log_action
              (ob\<lparr>cache := SCULPT_cache_calc_brushdata_symm rot ((cache ob)\<lparr>radial_symmetry_pass := i\<rparr>) symm axis
                               (2 * pi * real_of_int i / real_of_int ?n)\<rparr>)"
  have step: "appends ?I [(m, axis, i)] ob' (?f i ob')" if "?I ob'" for i ob'
  proof -
    let ?ob2 = "ob'\<lparr>cache := SCULPT_cache_calc_brushdata_symm rot ((cache ob')\<lparr>radial_symmetry_pass := i\<rparr>) symm axis
                               (2 * pi * real_of_int i / real_of_int ?n)\<rparr>"
    have c: "combination (cache ?ob2) = (m, axis, i)"
      using that by (simp add: calc_brushdata_combination)
    then have mm: "mirror_symmetry_pass (cache ?ob2) = m" by (simp add: combination_def)
    have "appends (\<lambda>x. mirror_symmetry_pass (cache x) = mirror_symmetry_pass (cache ?ob2))
            [combination (cache ?ob2)] ?ob2 (do_tiled P sd bb log_action ?ob2)"
      by (rule do_tiled_appends)
    then show ?thesis unfolding c mm by (auto simp: appends_def)
  qed
  have "appends ?I (concat (map (\<lambda>i. [(m, axis, i)]) [1..?n - 1])) ob (fold ?f [1..?n - 1] ob)"
    using step assms by (rule appends_fold)
  moreover have "concat (map (\<lambda>i. [(m, axis, i)]) [1..?n - 1]) = radial_combinations sd m axis"
    by (simp add: radial_combinations_def)
  moreover have "do_radial_symmetry P rot sd bb log_action symm axis ob = fold ?f [1..?n - 1] ob"
    by (simp add: do_radial_symmetry_def Let_def)
  ultimately show ?thesis by simp
qed

lemma do_symmetrical_brush_actions_appends:
  "appends (\<lambda>_. True) (all_combinations sd symm) ob
     (do_symmetrical_brush_actions P rot sd bb symm log_action ob)"
proof -
  let ?f = "\<lambda>i ob.
             if \<not> SCULPT_is_symmetry_iteration_valid (word_of_int i) symm then ob
             else
               let c = (cache ob)\<lparr>mirror_symmetry_pass := i, radial_symmetry_pass := 0\<rparr>;
                   c = SCULPT_cache_calc_brushdata_symm rot c i (CHR 0x00) 0;
                   ob = do_tiled P sd bb log_action (ob\<lparr>cache := c\<rparr>);
                   ob = do_radial_symmetry P rot sd bb log_action i CHR ''X'' ob;
                   ob = do_radial_symmetry P rot sd bb log_action i CHR ''Y'' ob;
                   ob = do_radial_symmetry P rot sd bb log_action i CHR ''Z'' ob
               in ob"
  have step: "appends (\<lambda>_. True) (pass_combinations sd symm i) ob' (?f i ob')" for i ob'
  proof (cases "SCULPT_is_symmetry_iteration_valid (word_of_int i) symm")
    case False
    then show ?thesis by (simp add: pass_combinations_def appends_def)
  next
    case True
    let ?I = "\<lambda>x. mirror_symmetry_pass (cache x) = i"
    let ?c = "SCULPT_cache_calc_brushdata_symm rot ((cache ob')\<lparr>mirror_symmetry_pass := i, radial_symmetry_pass := 0\<rparr>) i (CHR 0x00) 0"
    let ?ob0 = "ob'\<lparr>cache := ?c\<rparr>"
    let ?ob1 = "do_tiled P sd bb log_action ?ob0"
    let ?ob2 = "do_radial_symmetry P rot sd bb log_action i CHR ''X'' ?ob1"
    let ?ob3 = "do_radial_symmetry P rot sd bb log_action i CHR ''Y'' ?ob2"
    let ?ob4 = "do_radial_symmetry P rot sd bb log_action i CHR ''Z'' ?ob3"
    have c: "combination (cache ?ob0) = (i, CHR 0x00, 0)"
      by (simp add: calc_brushdata_combination)
    then have m0: "mirror_symmetry_pass (cache ?ob0) = i" by (simp add: combination_def)
    have "appends (\<lambda>x. mirror_symmetry_pass (cache x) = mirror_symmetry_pass (cache ?ob0))
            [combination (cache ?ob0)] ?ob0 ?ob1"
      by (rule do_tiled_appends)
    then have a1: "appends ?I [(i, CHR 0x00, 0)] ?ob0 ?ob1" unfolding c m0 .
    then have i1: "?I ?ob1" by (rule appends_inv)
    have a2: "appends ?I (radial_combinations sd i CHR ''X'') ?ob1 ?ob2"
      using i1 by (rule do_radial_symmetry_appends)
    then have i2: "?I ?ob2" by (rule appends_inv)
    have a3: "appends ?I (radial_combinations sd i CHR ''Y'') ?ob2 ?ob3"
      using i2 by (rule do_radial_symmetry_appends)
    then have i3: "?I ?ob3" by (rule appends_inv)
    have a4: "appends ?I (radial_combinations sd i CHR ''Z'') ?ob3 ?ob4"
      using i3 by (rule do_radial_symmetry_appends)
    have pc: "pass_combinations sd symm i = [(i, CHR 0x00, 0)] @ radial_combinations sd i CHR ''X'' @
             radial_combinations sd i CHR ''Y'' @ radial_combinations sd i CHR ''Z''"
      using True by (simp add: pass_combinations_def)
    have "appends ?I ([(i, CHR 0x00, 0)] @ radial_combinations sd i CHR ''X'' @ radial_combinations sd i CHR ''Y''
             @ radial_combinations sd i CHR ''Z'') ?ob0 ?ob4"
      using a1 a2 a3 a4 by (meson appends_trans)
    then have "appends (\<lambda>_. True) (pass_combinations sd symm i) ?ob0 ?ob4"
      unfolding pc by (rule appends_weaken)
    then have "appends (\<lambda>_. True) (pass_combinations sd symm i) ob' ?ob4"
      by (rule appends_start) simp
    moreover have "?f i ob' = ?ob4" using True by (simp add: Let_def)
    ultimately show ?thesis by (simp only:)
  qed
  let ?start = "ob\<lparr>cache := (cache ob)\<lparr>symmetry := symm\<rparr>\<rparr>"
  have "appends (\<lambda>_. True) (concat (map (pass_combinations sd symm) [0..uint symm])) ?start
          (fold ?f [0..uint symm] ?start)"
    by (rule appends_fold) (rule step, simp)
  then have "appends (\<lambda>_. True) (all_combinations sd symm) ob (fold ?f [0..uint symm] ?start)"
    unfolding all_combinations_def by (rule appends_start) simp
  moreover have "do_symmetrical_brush_actions P rot sd bb symm log_action ob = fold ?f [0..uint symm] ?start"
    by (simp add: do_symmetrical_brush_actions_def)
  ultimately show ?thesis by (simp only:)
qed

lemma append_eq_mid:
  assumes "b @ T' = pre @ e # post"
  shows "(\<exists>us. b = pre @ e # us) \<or> (\<exists>us. pre = b @ us \<and> T' = us @ e # post)"
proof -
  from assms obtain us where
    "(b = pre @ us \<and> us @ T' = e # post) \<or> (b @ us = pre \<and> T' = us @ e # post)"
    by (auto simp: append_eq_append_conv2)
  then show ?thesis
  proof
    assume a: "b = pre @ us \<and> us @ T' = e # post"
    show ?thesis
    proof (cases us)
      case Nil
      with a have "pre = b @ []" "T' = [] @ e # post" by simp_all
      then show ?thesis by blast
    next
      case (Cons u us')
      with a have "b = pre @ e # us'" by simp
      then show ?thesis by blast
    qed
  next
    assume "b @ us = pre \<and> T' = us @ e # post"
    then show ?thesis by auto
  qed
qed

lemma tiled_block_combination: "tiled_block k b \<Longrightarrow> e \<in> set b \<Longrightarrow> combination e = k"
  by (auto simp: tiled_block_def)

lemma blocks_combination: "blocks ks T \<Longrightarrow> e \<in> set T \<Longrightarrow> combination e \<in> set ks"
proof (induction ks arbitrary: T)
  case Nil
  then show ?case by simp
next
  case (Cons k ks)
  from Cons.prems(1) obtain b T' where b: "T = b @ T'" "tiled_block k b" "blocks ks T'"
    by auto
  from Cons.prems(2) b(1) consider "e \<in> set b" | "e \<in> set T'" by auto
  then show ?case
  proof cases
    case 1
    then show ?thesis using b(2) tiled_block_combination by fastforce
  next
    case 2
    then show ?thesis using Cons.IH b(3) by simp
  qed
qed

lemma blocks_has_untiled:
  "blocks ks T \<Longrightarrow> k \<in> set ks \<Longrightarrow> \<exists>e0\<in>set T. combination e0 = k \<and> tile_pass e0 = 0"
proof (induction ks arbitrary: T)
  case Nil
  then show ?case by simp
next
  case (Cons k' ks)
  from Cons.prems(1) obtain b T' where b: "T = b @ T'" "tiled_block k' b" "blocks ks T'"
    by auto
  show ?case
  proof (cases "k = k'")
    case True
    then show ?thesis using b(1,2) by (auto simp: tiled_block_def)
  next
    case False
    then have "k \<in> set ks" using Cons.prems(2) by simp
    then have "\<exists>e0\<in>set T'. combination e0 = k \<and> tile_pass e0 = 0" using Cons.IH b(3) by blast
    then show ?thesis using b(1) by auto
  qed
qed

lemma blocks_split:
  "blocks ks T \<Longrightarrow> T = pre @ e # post \<Longrightarrow>
   \<exists>ks1 ks2 T1 p. ks = ks1 @ combination e # ks2 \<and> blocks ks1 T1 \<and> pre = T1 @ p \<and>
      (tile_pass e \<noteq> 0 \<longrightarrow> (\<exists>e0\<in>set p. combination e0 = combination e \<and> tile_pass e0 = 0))"
proof (induction ks arbitrary: T pre)
  case Nil
  then show ?case by simp
next
  case (Cons k ks)
  from Cons.prems(1) obtain b T' where b: "T = b @ T'" "tiled_block k b" "blocks ks T'"
    by auto
  from b(2) obtain e0 rest where r: "b = e0 # rest" "combination e0 = k" "tile_pass e0 = 0"
    "\<forall>x\<in>set rest. combination x = k \<and> 0 < tile_pass x"
    by (auto simp: tiled_block_def)
  from Cons.prems(2) b(1) have "b @ T' = pre @ e # post" by simp
  from append_eq_mid[OF this]
  consider us where "b = pre @ e # us" | us where "pre = b @ us" "T' = us @ e # post"
    by blast
  then show ?case
  proof cases
    case 1
    then have eb: "e \<in> set b" by simp
    then have ce: "combination e = k" using b(2) tiled_block_combination by blast
    have "tile_pass e \<noteq> 0 \<longrightarrow> (\<exists>x\<in>set pre. combination x = combination e \<and> tile_pass x = 0)"
    proof
      assume ne: "tile_pass e \<noteq> 0"
      have "pre \<noteq> []"
      proof
        assume "pre = []"
        with 1 r(1) have "e = e0" by simp
        with r(3) ne show False by simp
      qed
      then obtain pre' where "pre = e0 # pre'" using 1 r(1) by (cases pre) auto
      then show "\<exists>x\<in>set pre. combination x = combination e \<and> tile_pass x = 0"
        using r(2,3) ce by auto
    qed
    then have "k # ks = [] @ combination e # ks \<and> blocks [] [] \<and> pre = [] @ pre \<and>
        (tile_pass e \<noteq> 0 \<longrightarrow> (\<exists>x\<in>set pre. combination x = combination e \<and> tile_pass x = 0))"
      using ce by simp
    then show ?thesis by (intro exI)
  next
    case 2
    from Cons.IH[OF b(3) 2(2)] obtain ks1 ks2 T1 p where
      h: "ks = ks1 @ combination e # ks2" "blocks ks1 T1" "us = T1 @ p"
         "tile_pass e \<noteq> 0 \<longrightarrow> (\<exists>e0\<in>set p. combination e0 = combination e \<and> tile_pass e0 = 0)"
      by blast
    have "k # ks = (k # ks1) @ combination e # ks2" using h(1) by simp
    moreover have "blocks (k # ks1) (b @ T1)" using b(2) h(2) by auto
    moreover have "pre = (b @ T1) @ p" using 2(1) h(3) by simp
    ultimately have "k # ks = (k # ks1) @ combination e # ks2 \<and> blocks (k # ks1) (b @ T1) \<and> pre = (b @ T1) @ p \<and>
        (tile_pass e \<noteq> 0 \<longrightarrow> (\<exists>e0\<in>set p. combination e0 = combination e \<and> tile_pass e0 = 0))"
      using h(4) by blast
    then show ?thesis by (intro exI)
  qed
qed

lemma tiled_block_count:
  "tiled_block k' b \<Longrightarrow>
   length (filter (\<lambda>x. combination x = k \<and> tile_pass x = 0) b) = (if k = k' then 1 else 0)"
proof -
  assume "tiled_block k' b"
  then obtain e0 rest where r: "b = e0 # rest" "combination e0 = k'" "tile_pass e0 = 0"
    "\<forall>x\<in>set rest. combination x = k' \<and> 0 < tile_pass x"
    by (auto simp: tiled_block_def)
  have "filter (\<lambda>x. combination x = k \<and> tile_pass x = 0) rest = []"
    using r(4) by (auto simp: filter_empty_conv)
  then show ?thesis using r(1,2,3) by auto
qed

lemma blocks_count:
  "blocks ks T \<Longrightarrow> distinct ks \<Longrightarrow>
   length (filter (\<lambda>x. combination x = k \<and> tile_pass x = 0) T) = (if k \<in> set ks then 1 else 0)"
proof (induction ks arbitrary: T)
  case Nil
  then show ?case by simp
next
  case (Cons k' ks)
  from Cons.prems(1) obtain b T' where b: "T = b @ T'" "tiled_block k' b" "blocks ks T'"
    by auto
  have d: "distinct ks" "k' \<notin> set ks" using Cons.prems(2) by auto
  have "length (filter (\<lambda>x. combination x = k \<and> tile_pass x = 0) T') = (if k \<in> set ks then 1 else 0)"
    using Cons.IH b(3) d(1) by blast
  moreover have "length (filter (\<lambda>x. combination x = k \<and> tile_pass x = 0) b) = (if k = k' then 1 else 0)"
    using b(2) by (rule tiled_block_count)
  ultimately show ?case using b(1) d(2) by auto
qed

lemma radial_combinations_fst: "k \<in> set (radial_combinations sd m axis) \<Longrightarrow> fst k = m \<and> fst (snd k) = axis"
  by (auto simp: radial_combinations_def)

lemma radial_combinations_distinct: "distinct (radial_combinations sd m axis)"
  by (simp add: radial_combinations_def distinct_map inj_on_def)

lemma pass_combinations_fst: "k \<in> set (pass_combinations sd symm i) \<Longrightarrow> fst k = i"
  by (auto simp: pass_combinations_def dest: radial_combinations_fst split: if_splits)

lemma radial_combinations_disjoint:
  "axis \<noteq> axis' \<Longrightarrow> set (radial_combinations sd m axis) \<inter> set (radial_combinations sd m axis') = {}"
  by (auto simp: radial_combinations_def)

lemma radial_combinations_no_base: "(m, CHR 0x00, r) \<notin> set (radial_combinations sd m CHR ''X'')"
  "(m, CHR 0x00, r) \<notin> set (radial_combinations sd m CHR ''Y'')"
  "(m, CHR 0x00, r) \<notin> set (radial_combinations sd m CHR ''Z'')"
  by (auto simp: radial_combinations_def)

lemma pass_combinations_distinct: "distinct (pass_combinations sd symm i)"
  by (simp add: pass_combinations_def radial_combinations_distinct radial_combinations_disjoint
        radial_combinations_no_base Int_Un_distrib)

lemma distinct_concat_map_key:
  "distinct xs \<Longrightarrow> (\<And>x. distinct (f x)) \<Longrightarrow> (\<And>x y. y \<in> set (f x) \<Longrightarrow> g y = x) \<Longrightarrow>
   distinct (concat (map f xs))"
proof (induction xs)
  case Nil
  then show ?case by simp
next
  case (Cons x xs)
  have "set (f x) \<inter> set (concat (map f xs)) = {}"
  proof (rule ccontr)
    assume "set (f x) \<inter> set (concat (map f xs)) \<noteq> {}"
    then obtain y x' where "y \<in> set (f x)" "x' \<in> set xs" "y \<in> set (f x')" by auto
    then have "x = x'" using Cons.prems(3) by metis
    then show False using Cons.prems(1) \<open>x' \<in> set xs\<close> by simp
  qed
  then show ?case using Cons by simp
qed

lemma all_combinations_distinct: "distinct (all_combinations sd symm)"
  unfolding all_combinations_def
  by (rule distinct_concat_map_key[where g = fst])
     (simp_all add: pass_combinations_distinct pass_combinations_fst)

lemma radial_combinations_radial: "k \<in> set (radial_combinations sd m axis) \<Longrightarrow> 1 \<le> snd (snd k)"
  by (auto simp: radial_combinations_def)

lemma all_combinations_base_first:
  "all_combinations sd symm = ks1 @ k # ks2 \<Longrightarrow> snd (snd k) \<noteq> 0 \<Longrightarrow> (fst k, CHR 0x00, 0) \<in> set ks1"
proof -
  have g: "concat (map (pass_combinations sd symm) xs) = ks1 @ k # ks2 \<Longrightarrow> snd (snd k) \<noteq> 0 \<Longrightarrow>
           (fst k, CHR 0x00, 0) \<in> set ks1" for xs
  proof (induction xs arbitrary: ks1)
    case Nil
    then show ?case by simp
  next
    case (Cons x xs)
    let ?b = "pass_combinations sd symm x"
    from Cons.prems(1) have "?b @ concat (map (pass_combinations sd symm) xs) = ks1 @ k # ks2" by simp
    from append_eq_mid[OF this]
    consider us where "?b = ks1 @ k # us"
      | us where "ks1 = ?b @ us" "concat (map (pass_combinations sd symm) xs) = us @ k # ks2"
      by blast
    then show ?case
    proof cases
      case 1
      then have kb: "k \<in> set ?b" by simp
      then have fk: "fst k = x" by (rule pass_combinations_fst)
      from kb obtain rest where b: "?b = (x, CHR 0x00, 0) # rest"
        by (auto simp: pass_combinations_def split: if_splits)
      have "ks1 \<noteq> []"
      proof
        assume "ks1 = []"
        with 1 b have "k = (x, CHR 0x00, 0)" by simp
        with Cons.prems(2) show False by simp
      qed
      then obtain ks1' where "ks1 = (x, CHR 0x00, 0) # ks1'" using 1 b by (cases ks1) auto
      then show ?thesis using fk by simp
    next
      case 2
      then have "(fst k, CHR 0x00, 0) \<in> set us" using Cons.IH Cons.prems(2) by blast
      then show ?thesis using 2(1) by simp
    qed
  qed
  show "all_combinations sd symm = ks1 @ k # ks2 \<Longrightarrow> snd (snd k) \<noteq> 0 \<Longrightarrow> (fst k, CHR 0x00, 0) \<in> set ks1"
    unfolding all_combinations_def by (rule g)
qed

section \<open>Properties of single-precision rounding\<close>

text \<open>
  Rounding keeps the sign, fixes the values that are already representable, and is monotone
  on the non-negative reals. A value is evaluated at a concrete input by naming its exponent
  and its significand (\<open>float32_round_eqI\<close>).
\<close>

lemma pow2_powr: "pow2 e = 2 powr (real_of_int e)"
  unfolding pow2_def by (subst powr_real_of_int) (simp_all add: inverse_eq_divide)

lemma pow2_pos: "0 < pow2 e"
  by (simp add: pow2_powr)

lemma pow2_add: "pow2 (a + b) = pow2 a * pow2 b"
  by (simp add: pow2_powr powr_add)

lemma pow2_mono: "a \<le> b \<Longrightarrow> pow2 a \<le> pow2 b"
  by (simp add: pow2_powr)

lemma pow2_less: "a < b \<Longrightarrow> pow2 a < pow2 b"
  by (simp add: pow2_powr)

lemma pow2_nat: "0 \<le> e \<Longrightarrow> pow2 e = of_int (2 ^ nat e)"
  by (simp add: pow2_def)

lemma exponent_bounds:
  assumes "0 < x"
  shows "pow2 \<lfloor>log 2 x\<rfloor> \<le> x" "x < pow2 (\<lfloor>log 2 x\<rfloor> + 1)"
proof -
  have "real_of_int \<lfloor>log 2 x\<rfloor> \<le> log 2 x" by simp
  then have "2 powr (real_of_int \<lfloor>log 2 x\<rfloor>) \<le> 2 powr (log 2 x)" by simp
  then show "pow2 \<lfloor>log 2 x\<rfloor> \<le> x" using assms by (simp add: pow2_powr)
  have "log 2 x < real_of_int (\<lfloor>log 2 x\<rfloor> + 1)" by linarith
  then have "2 powr (log 2 x) < 2 powr (real_of_int (\<lfloor>log 2 x\<rfloor> + 1))" by simp
  then show "x < pow2 (\<lfloor>log 2 x\<rfloor> + 1)" using assms by (simp add: pow2_powr)
qed

lemma exponent_unique:
  assumes "pow2 e \<le> x" "x < pow2 (e + 1)"
  shows "\<lfloor>log 2 x\<rfloor> = e"
proof (rule floor_unique)
  have x: "0 < x" using assms(1) pow2_pos[of e] by linarith
  show "real_of_int e \<le> log 2 x"
    using assms(1) x by (simp add: pow2_powr le_log_iff)
  show "log 2 x < real_of_int e + 1"
    using assms(2) x by (simp add: pow2_powr log_less_iff add.commute)
qed

lemma round_even_of_int: "round_even (of_int k) = k"
  by (simp add: round_even_def)

lemma round_even_floor: "\<lfloor>t\<rfloor> \<le> round_even t" "round_even t \<le> \<lfloor>t\<rfloor> + 1"
  by (simp_all add: round_even_def)

lemma round_even_mono:
  assumes "s \<le> t"
  shows "round_even s \<le> round_even t"
proof (cases "\<lfloor>s\<rfloor> = \<lfloor>t\<rfloor>")
  case True
  define a where "a = s - of_int \<lfloor>s\<rfloor>"
  define b where "b = t - of_int \<lfloor>t\<rfloor>"
  have ab: "a \<le> b" using assms True by (simp add: a_def b_def)
  have rs: "round_even s = (if a < 1 / 2 then \<lfloor>t\<rfloor> else if a > 1 / 2 then \<lfloor>t\<rfloor> + 1
                            else if even \<lfloor>t\<rfloor> then \<lfloor>t\<rfloor> else \<lfloor>t\<rfloor> + 1)"
    unfolding round_even_def a_def True by (rule refl)
  have rt: "round_even t = (if b < 1 / 2 then \<lfloor>t\<rfloor> else if b > 1 / 2 then \<lfloor>t\<rfloor> + 1
                            else if even \<lfloor>t\<rfloor> then \<lfloor>t\<rfloor> else \<lfloor>t\<rfloor> + 1)"
    unfolding round_even_def b_def by (rule refl)
  consider "b < 1 / 2" | "b > 1 / 2" | "b = 1 / 2" "a < 1 / 2" | "b = 1 / 2" "a = 1 / 2"
    using ab by linarith
  then show ?thesis
  proof cases
    case 1
    then have "a < 1 / 2" using ab by linarith
    then show ?thesis using 1 rs rt by simp
  next
    case 2
    then have "round_even t = \<lfloor>t\<rfloor> + 1" using rt by simp
    then show ?thesis using round_even_floor(2)[of s] True by simp
  next
    case 3
    then have "round_even s = \<lfloor>t\<rfloor>" using rs by simp
    then show ?thesis using round_even_floor(1)[of t] by simp
  next
    case 4
    then show ?thesis using rs rt by simp
  qed
next
  case False
  have "\<lfloor>s\<rfloor> \<le> \<lfloor>t\<rfloor>" using assms by (rule floor_mono)
  with False have "\<lfloor>s\<rfloor> + 1 \<le> \<lfloor>t\<rfloor>" by simp
  then show ?thesis using round_even_floor(2)[of s] round_even_floor(1)[of t] by linarith
qed

lemma round_even_ge: "of_int a \<le> t \<Longrightarrow> a \<le> round_even t"
  using round_even_mono[of "of_int a" t] by (simp add: round_even_of_int)

lemma round_even_le: "t \<le> of_int b \<Longrightarrow> round_even t \<le> b"
  using round_even_mono[of t "of_int b"] by (simp add: round_even_of_int)

lemma pow2_24: "pow2 24 = 16777216" and pow2_23: "pow2 23 = 8388608" and pow2_0: "pow2 0 = 1"
  by (simp_all add: pow2_def)

lemma pow2_split:
  shows "pow2 (e + 1) = pow2 (e - 23) * 16777216"
    and "pow2 e = pow2 (e - 23) * 8388608"
proof -
  have "pow2 (e + 1) = pow2 ((e - 23) + 24)" by (rule arg_cong[of _ _ pow2]) simp
  also have "\<dots> = pow2 (e - 23) * pow2 24" by (rule pow2_add)
  finally show "pow2 (e + 1) = pow2 (e - 23) * 16777216" by (simp add: pow2_24)
  have "pow2 e = pow2 ((e - 23) + 23)" by (rule arg_cong[of _ _ pow2]) simp
  also have "\<dots> = pow2 (e - 23) * pow2 23" by (rule pow2_add)
  finally show "pow2 e = pow2 (e - 23) * 8388608" by (simp add: pow2_23)
qed

lemma float32_exponent_ge: "- 126 \<le> float32_exponent x"
  by (simp add: float32_exponent_def)

lemma float32_exponent_upper:
  assumes "x \<noteq> 0"
  shows "\<bar>x\<bar> < pow2 (float32_exponent x + 1)"
proof -
  have "\<bar>x\<bar> < pow2 (\<lfloor>log 2 \<bar>x\<bar>\<rfloor> + 1)" using assms by (intro exponent_bounds) simp
  also have "\<dots> \<le> pow2 (float32_exponent x + 1)"
    by (rule pow2_mono) (simp add: float32_exponent_def)
  finally show ?thesis .
qed

lemma float32_round_0: "float32_round 0 = 0"
  by (simp add: float32_round_def)

lemma float32_round_nonneg:
  assumes "0 \<le> x"
  shows "0 \<le> float32_round x"
proof (cases "x = 0")
  case True
  then show ?thesis by (simp add: float32_round_0)
next
  case False
  let ?q = "pow2 (float32_exponent x - 23)"
  have "real_of_int 0 \<le> x / ?q" using assms pow2_pos[of "float32_exponent x - 23"] by simp
  then have "0 \<le> round_even (x / ?q)" by (rule round_even_ge)
  then show ?thesis using False pow2_pos[of "float32_exponent x - 23"]
    by (simp add: float32_round_def Let_def)
qed

lemma float32_round_nonpos:
  assumes "x \<le> 0"
  shows "float32_round x \<le> 0"
proof (cases "x = 0")
  case True
  then show ?thesis by (simp add: float32_round_0)
next
  case False
  let ?q = "pow2 (float32_exponent x - 23)"
  have "x / ?q \<le> real_of_int 0" using assms pow2_pos[of "float32_exponent x - 23"]
    by (simp add: divide_nonpos_pos)
  then have "round_even (x / ?q) \<le> 0" by (rule round_even_le)
  then show ?thesis using False pow2_pos[of "float32_exponent x - 23"]
    by (simp add: float32_round_def Let_def mult_nonpos_nonneg)
qed

lemma float32_exponent_eq:
  assumes "- 126 \<le> e" "pow2 e \<le> \<bar>x\<bar>" "\<bar>x\<bar> < pow2 (e + 1)"
  shows "float32_exponent x = e"
proof -
  have "\<lfloor>log 2 \<bar>x\<bar>\<rfloor> = e" using assms(2,3) by (rule exponent_unique)
  then show ?thesis using assms(1) by (simp add: float32_exponent_def)
qed

lemma float32_exponent_small:
  assumes "x \<noteq> 0" "\<bar>x\<bar> < pow2 (- 126)"
  shows "float32_exponent x = - 126"
proof -
  have "pow2 \<lfloor>log 2 \<bar>x\<bar>\<rfloor> \<le> \<bar>x\<bar>" using assms(1) by (intro exponent_bounds) simp
  then have "pow2 \<lfloor>log 2 \<bar>x\<bar>\<rfloor> < pow2 (- 126)" using assms(2) by linarith
  then have "\<lfloor>log 2 \<bar>x\<bar>\<rfloor> < - 126"
    using pow2_mono[of "- 126" "\<lfloor>log 2 \<bar>x\<bar>\<rfloor>"] by linarith
  then show ?thesis by (simp add: float32_exponent_def)
qed

lemma float32_round_eval:
  assumes "- 126 \<le> e" "pow2 e \<le> \<bar>x\<bar>" "\<bar>x\<bar> < pow2 (e + 1)"
  shows "float32_round x = of_int (round_even (x / pow2 (e - 23))) * pow2 (e - 23)"
proof -
  have "x \<noteq> 0" using assms(2) pow2_pos[of e] by auto
  then show ?thesis using float32_exponent_eq[OF assms] by (simp add: float32_round_def Let_def)
qed

lemma round_scaled_exact:
  assumes "e' \<le> e"
  shows "of_int (round_even (of_int k * pow2 (e - 23) / pow2 (e' - 23))) * pow2 (e' - 23)
           = of_int k * pow2 (e - 23)"
proof -
  define n where "n = nat (e - e')"
  define q where "q = pow2 (e' - 23)"
  have qpos: "0 < q" unfolding q_def by (rule pow2_pos)
  have "pow2 (e - 23) = pow2 ((e' - 23) + (e - e'))" by (rule arg_cong[of _ _ pow2]) simp
  also have "\<dots> = q * pow2 (e - e')" unfolding q_def by (rule pow2_add)
  also have "pow2 (e - e') = of_int (2 ^ n)" unfolding n_def using assms by (intro pow2_nat) simp
  finally have p: "pow2 (e - 23) = q * of_int (2 ^ n)" .
  have "of_int k * (q * of_int (2 ^ n)) / q = real_of_int (k * 2 ^ n)" using qpos by simp
  then have "round_even (of_int k * (q * of_int (2 ^ n)) / q) = k * 2 ^ n"
    by (simp only: round_even_of_int)
  then show ?thesis unfolding p q_def[symmetric] by simp
qed

lemma float32_round_representable:
  assumes "0 \<le> k" "k \<le> 16777216" "- 126 \<le> e"
  shows "float32_round (of_int k * pow2 (e - 23)) = of_int k * pow2 (e - 23)"
proof (cases "k = 0")
  case True
  then show ?thesis by (simp add: float32_round_0)
next
  case False
  define y where "y = real_of_int k * pow2 (e - 23)"
  define e' where "e' = float32_exponent y"
  have kpos: "0 < k" using assms(1) False by simp
  have ypos: "0 < y" unfolding y_def using kpos pow2_pos[of "e - 23"] by simp
  then have yne: "y \<noteq> 0" by simp
  have yle: "y \<le> pow2 (e + 1)"
  proof -
    have "real_of_int k \<le> 16777216" using assms(2) by linarith
    then have "y \<le> 16777216 * pow2 (e - 23)"
      unfolding y_def using pow2_pos[of "e - 23"] by (simp add: mult_right_mono)
    then show ?thesis by (simp add: pow2_split(1) mult.commute)
  qed
  have lb: "pow2 \<lfloor>log 2 \<bar>y\<bar>\<rfloor> \<le> \<bar>y\<bar>" using yne by (intro exponent_bounds) simp
  have L: "\<lfloor>log 2 \<bar>y\<bar>\<rfloor> \<le> e + 1"
  proof (rule ccontr)
    assume "\<not> \<lfloor>log 2 \<bar>y\<bar>\<rfloor> \<le> e + 1"
    then have "e + 1 < \<lfloor>log 2 \<bar>y\<bar>\<rfloor>" by simp
    then have "pow2 (e + 1) < pow2 \<lfloor>log 2 \<bar>y\<bar>\<rfloor>" by (rule pow2_less)
    then show False using lb yle ypos by linarith
  qed
  have e'le: "e' \<le> e + 1" unfolding e'_def using L assms(3) by (simp add: float32_exponent_def)
  have r: "float32_round y = of_int (round_even (y / pow2 (e' - 23))) * pow2 (e' - 23)"
    unfolding e'_def using yne by (simp add: float32_round_def Let_def)
  have "float32_round y = y"
  proof (cases "e' \<le> e")
    case True
    then show ?thesis unfolding r unfolding y_def by (rule round_scaled_exact)
  next
    case False
    then have e': "e' = e + 1" using e'le by simp
    then have "\<lfloor>log 2 \<bar>y\<bar>\<rfloor> = e + 1"
      using assms(3) unfolding e'_def by (simp add: float32_exponent_def max_def split: if_splits)
    then have "pow2 (e + 1) \<le> \<bar>y\<bar>" using lb by simp
    then have y: "y = real_of_int 8388608 * pow2 (e + 1 - 23)"
      using yle ypos pow2_split(2)[of "e + 1"] by (simp add: mult.commute)
    show ?thesis unfolding r e' unfolding y by (rule round_scaled_exact) simp
  qed
  then show ?thesis unfolding y_def .
qed

lemma float32_round_1: "float32_round 1 = 1"
proof -
  have "pow2 (0 - 23) * 8388608 = 1" using pow2_split(2)[of 0] by (simp add: pow2_0)
  then have "real_of_int 8388608 * pow2 (0 - 23) = 1" by (simp add: mult.commute)
  moreover have "float32_round (real_of_int 8388608 * pow2 (0 - 23)) = real_of_int 8388608 * pow2 (0 - 23)"
    by (rule float32_round_representable) simp_all
  ultimately show ?thesis by (simp only:)
qed

lemma float32_round_idem:
  assumes "0 \<le> x"
  shows "float32_round (float32_round x) = float32_round x"
proof (cases "x = 0")
  case True
  then show ?thesis by (simp add: float32_round_0)
next
  case False
  let ?e = "float32_exponent x"
  let ?q = "pow2 (?e - 23)"
  let ?k = "round_even (x / ?q)"
  have r: "float32_round x = of_int ?k * ?q" using False by (simp add: float32_round_def Let_def)
  have "real_of_int 0 \<le> x / ?q" using assms pow2_pos[of "?e - 23"] by simp
  then have k0: "0 \<le> ?k" by (rule round_even_ge)
  have "\<bar>x\<bar> < pow2 (?e + 1)" using False by (rule float32_exponent_upper)
  then have "x < ?q * 16777216" using assms by (simp add: pow2_split(1))
  then have "x / ?q \<le> real_of_int 16777216" using pow2_pos[of "?e - 23"]
    by (simp add: pos_divide_le_eq mult.commute)
  then have k1: "?k \<le> 16777216" by (rule round_even_le)
  show ?thesis unfolding r using k0 k1 float32_exponent_ge by (rule float32_round_representable)
qed

lemma float32_round_mono:
  assumes "0 \<le> x" "x \<le> y"
  shows "float32_round x \<le> float32_round y"
proof (cases "x = 0")
  case True
  then show ?thesis using assms float32_round_nonneg[of y] by (simp add: float32_round_0)
next
  case False
  then have xpos: "0 < x" and ypos: "0 < y" using assms by simp_all
  let ?ex = "float32_exponent x"
  let ?ey = "float32_exponent y"
  have rx: "float32_round x = of_int (round_even (x / pow2 (?ex - 23))) * pow2 (?ex - 23)"
    using xpos by (simp add: float32_round_def Let_def)
  have ry: "float32_round y = of_int (round_even (y / pow2 (?ey - 23))) * pow2 (?ey - 23)"
    using ypos by (simp add: float32_round_def Let_def)
  have "log 2 \<bar>x\<bar> \<le> log 2 \<bar>y\<bar>" using xpos assms(2) by simp
  then have "\<lfloor>log 2 \<bar>x\<bar>\<rfloor> \<le> \<lfloor>log 2 \<bar>y\<bar>\<rfloor>" by (rule floor_mono)
  then have exy: "?ex \<le> ?ey" by (simp add: float32_exponent_def)
  show ?thesis
  proof (cases "?ex = ?ey")
    case True
    have "x / pow2 (?ey - 23) \<le> y / pow2 (?ey - 23)"
      using assms(2) pow2_pos[of "?ey - 23"] by (simp add: divide_right_mono)
    then have "round_even (x / pow2 (?ey - 23)) \<le> round_even (y / pow2 (?ey - 23))"
      by (rule round_even_mono)
    then show ?thesis unfolding rx ry True using pow2_pos[of "?ey - 23"]
      by (simp add: mult_right_mono)
  next
    case False
    then have lt: "?ex + 1 \<le> ?ey" using exy by simp
    have "\<bar>x\<bar> < pow2 (?ex + 1)" using xpos by (intro float32_exponent_upper) simp
    then have "x < pow2 (?ex - 23) * 16777216" using xpos by (simp add: pow2_split(1))
    then have "x / pow2 (?ex - 23) \<le> real_of_int 16777216" using pow2_pos[of "?ex - 23"]
      by (simp add: pos_divide_le_eq mult.commute)
    then have "round_even (x / pow2 (?ex - 23)) \<le> 16777216" by (rule round_even_le)
    then have "real_of_int (round_even (x / pow2 (?ex - 23))) \<le> 16777216" by linarith
    then have "float32_round x \<le> 16777216 * pow2 (?ex - 23)"
      unfolding rx using pow2_pos[of "?ex - 23"] by (simp add: mult_right_mono)
    then have a: "float32_round x \<le> pow2 (?ex + 1)" by (simp add: pow2_split(1) mult.commute)
    have b: "pow2 (?ex + 1) \<le> pow2 ?ey" using lt by (rule pow2_mono)
    have "- 126 < ?ey" using lt float32_exponent_ge[of x] by linarith
    then have "?ey = \<lfloor>log 2 \<bar>y\<bar>\<rfloor>" by (simp add: float32_exponent_def max_def split: if_splits)
    then have "pow2 ?ey \<le> \<bar>y\<bar>" using exponent_bounds(1)[of "\<bar>y\<bar>"] ypos by simp
    then have "pow2 (?ey - 23) * 8388608 \<le> y" using ypos by (simp add: pow2_split(2)[symmetric])
    then have "real_of_int 8388608 \<le> y / pow2 (?ey - 23)" using pow2_pos[of "?ey - 23"]
      by (simp add: pos_le_divide_eq mult.commute)
    then have "8388608 \<le> round_even (y / pow2 (?ey - 23))" by (rule round_even_ge)
    then have "8388608 \<le> real_of_int (round_even (y / pow2 (?ey - 23)))" by linarith
    then have "8388608 * pow2 (?ey - 23) \<le> float32_round y"
      unfolding ry using pow2_pos[of "?ey - 23"] by (simp add: mult_right_mono)
    then have c: "pow2 ?ey \<le> float32_round y" by (simp add: pow2_split(2)[of ?ey] mult.commute)
    show ?thesis using a b c by linarith
  qed
qed

lemma round_even_eqI:
  assumes "of_int k - 1 / 2 < t" "t < of_int k + 1 / 2"
  shows "round_even t = k"
proof -
  have "\<lfloor>t\<rfloor> = k \<or> \<lfloor>t\<rfloor> = k - 1" using assms by linarith
  then show ?thesis
  proof
    assume f: "\<lfloor>t\<rfloor> = k"
    then have "t - of_int \<lfloor>t\<rfloor> < 1 / 2" using assms(2) by simp
    then show ?thesis using f by (simp add: round_even_def)
  next
    assume f: "\<lfloor>t\<rfloor> = k - 1"
    then have "t - of_int \<lfloor>t\<rfloor> > 1 / 2" using assms(1) by simp
    then show ?thesis using f by (simp add: round_even_def)
  qed
qed

lemma float32_round_eqI:
  assumes "- 126 \<le> e" "pow2 e \<le> \<bar>x\<bar>" "\<bar>x\<bar> < pow2 (e + 1)"
    and "of_int k - 1 / 2 < x / pow2 (e - 23)" "x / pow2 (e - 23) < of_int k + 1 / 2"
    and "y = of_int k * pow2 (e - 23)"
  shows "float32_round x = y"
proof -
  have "round_even (x / pow2 (e - 23)) = k" using assms(4,5) by (rule round_even_eqI)
  then show ?thesis using float32_round_eval[OF assms(1-3)] assms(6) by simp
qed

lemma float32_exponent_mono:
  assumes "0 < x" "x \<le> y"
  shows "float32_exponent x \<le> float32_exponent y"
proof -
  have "log 2 \<bar>x\<bar> \<le> log 2 \<bar>y\<bar>" using assms by simp
  then have "\<lfloor>log 2 \<bar>x\<bar>\<rfloor> \<le> \<lfloor>log 2 \<bar>y\<bar>\<rfloor>" by (rule floor_mono)
  then show ?thesis by (simp add: float32_exponent_def)
qed

lemma float32_decomp:
  assumes "float32_round x = x" "0 < x"
  obtains k where "x = of_int k * pow2 (float32_exponent x - 23)" "k < 16777216"
proof -
  define q where "q = pow2 (float32_exponent x - 23)"
  define k where "k = round_even (x / q)"
  have qpos: "0 < q" unfolding q_def by (rule pow2_pos)
  have x: "x = of_int k * q"
    using assms unfolding k_def q_def by (simp add: float32_round_def Let_def)
  have "\<bar>x\<bar> < pow2 (float32_exponent x + 1)" using assms(2) by (intro float32_exponent_upper) simp
  then have "x < q * 16777216" using assms(2) unfolding q_def by (simp add: pow2_split(1))
  then have "of_int k * q < 16777216 * q" using x by (simp add: mult.commute)
  then have "real_of_int k < 16777216" using qpos by simp
  then have "k < 16777216" by linarith
  then show ?thesis using x that unfolding q_def by blast
qed

lemma float32_quotient_below_1:
  assumes fd: "float32_round d = d" and fr: "float32_round r = r" and d: "0 < d" "d < r"
  shows "d / r \<le> 16777215 / 16777216"
proof -
  define ed where "ed = float32_exponent d"
  define er where "er = float32_exponent r"
  have rpos: "0 < r" using d by simp
  obtain kd where kd: "d = of_int kd * pow2 (ed - 23)" "kd < 16777216"
    unfolding ed_def using fd d(1) by (rule float32_decomp)
  obtain kr where kr: "r = of_int kr * pow2 (er - 23)" "kr < 16777216"
    unfolding er_def using fr rpos by (rule float32_decomp)
  have le: "ed \<le> er" unfolding ed_def er_def using d by (intro float32_exponent_mono) simp_all
  have "d * 16777216 \<le> r * 16777215"
  proof (cases "ed = er")
    case True
    define q where "q = pow2 (er - 23)"
    have qpos: "0 < q" unfolding q_def by (rule pow2_pos)
    have dq: "d = of_int kd * q" and rq: "r = of_int kr * q" using kd(1) kr(1) True by (simp_all add: q_def)
    have "of_int kd * q < of_int kr * q" using d(2) dq rq by simp
    then have "real_of_int kd < real_of_int kr" using qpos by simp
    then have "kd + 1 \<le> kr" by linarith
    then have "real_of_int kd + 1 \<le> real_of_int kr" by linarith
    then have "(real_of_int kd + 1) * q \<le> real_of_int kr * q" using qpos by (simp add: mult_right_mono)
    then have 1: "d + q \<le> r" using dq rq by (simp add: algebra_simps)
    have "real_of_int kr < 16777216" using kr(2) by linarith
    then have "real_of_int kr * q < 16777216 * q" using qpos by simp
    then have 2: "r < 16777216 * q" using rq by simp
    show ?thesis using 1 2 by linarith
  next
    case False
    then have lt: "ed + 1 \<le> er" using le by simp
    define q where "q = pow2 (ed - 23)"
    have qpos: "0 < q" unfolding q_def by (rule pow2_pos)
    have "real_of_int kd \<le> 16777215" using kd(2) by linarith
    then have "real_of_int kd * q \<le> 16777215 * q" using qpos by (simp add: mult_right_mono)
    then have 1: "d \<le> 16777215 * q" using kd(1) by (simp add: q_def)
    have 2: "pow2 (ed + 1) = q * 16777216" unfolding q_def by (rule pow2_split(1))
    have 3: "pow2 (ed + 1) \<le> pow2 er" using lt by (rule pow2_mono)
    have "- 126 < er" using lt float32_exponent_ge[of d] by (simp add: ed_def)
    then have "er = \<lfloor>log 2 \<bar>r\<bar>\<rfloor>"
      unfolding er_def by (simp add: float32_exponent_def max_def split: if_splits)
    then have "pow2 er \<le> \<bar>r\<bar>" using exponent_bounds(1)[of "\<bar>r\<bar>"] rpos by simp
    then have 4: "pow2 er \<le> r" using rpos by simp
    have "q * 16777216 \<le> r" using 2 3 4 by linarith
    then show ?thesis using 1 by linarith
  qed
  then show ?thesis using rpos by (simp add: field_simps)
qed

lemma float32_round_below_1:
  assumes "0 \<le> x" "x \<le> 16777215 / 16777216"
  shows "float32_round x < 1"
proof -
  have "float32_round x \<le> float32_round (16777215 / 16777216)"
    using assms by (rule float32_round_mono)
  also have "float32_round (16777215 / 16777216) = 16777215 / 16777216"
    by (rule float32_round_eqI[where e = "- 1" and k = 16777215]) (simp_all add: pow2_def)
  finally show ?thesis by simp
qed

section \<open>Order of the passes\<close>

lemma driver_blocks:
  "blocks (all_combinations sd symm)
     (invocations (do_symmetrical_brush_actions P rot sd bb symm log_action (ob\<lparr>invocations := []\<rparr>)))"
proof -
  have "appends (\<lambda>_. True) (all_combinations sd symm) (ob\<lparr>invocations := []\<rparr>)
          (do_symmetrical_brush_actions P rot sd bb symm log_action (ob\<lparr>invocations := []\<rparr>))"
    by (rule do_symmetrical_brush_actions_appends)
  then show ?thesis by (auto simp: appends_def)
qed

lemma blocks_untiled_first:
  assumes "blocks ks T" "T = pre @ e # post" "tile_pass e \<noteq> 0"
  shows "\<exists>e0\<in>set pre. combination e0 = combination e \<and> tile_pass e0 = 0"
proof -
  from blocks_split[OF assms(1,2)] obtain ks1 ks2 T1 p where
    h: "pre = T1 @ p"
       "tile_pass e \<noteq> 0 \<longrightarrow> (\<exists>e0\<in>set p. combination e0 = combination e \<and> tile_pass e0 = 0)"
    by blast
  with assms(3) show ?thesis by auto
qed

lemma blocks_untiled_once:
  assumes "blocks ks T" "distinct ks" "e \<in> set T"
  shows "length (filter (\<lambda>x. combination x = combination e \<and> tile_pass x = 0) T) = 1"
proof -
  have "combination e \<in> set ks" using assms(1,3) by (rule blocks_combination)
  then show ?thesis using blocks_count[OF assms(1,2), of "combination e"] by simp
qed

lemma driver_base_first:
  assumes "blocks (all_combinations sd symm) T" "T = pre @ e # post" "radial_symmetry_pass e \<noteq> 0"
  shows "\<exists>e0\<in>set pre. mirror_symmetry_pass e0 = mirror_symmetry_pass e \<and>
           radial_symmetry_pass e0 = 0 \<and> tile_pass e0 = 0"
proof -
  from blocks_split[OF assms(1,2)] obtain ks1 ks2 T1 p where
    h: "all_combinations sd symm = ks1 @ combination e # ks2" "blocks ks1 T1" "pre = T1 @ p"
    by blast
  have "snd (snd (combination e)) \<noteq> 0" using assms(3) by (simp add: combination_def)
  with h(1) have "(fst (combination e), CHR 0x00, 0) \<in> set ks1"
    by (rule all_combinations_base_first)
  with h(2) obtain e0 where e0: "e0 \<in> set T1" "combination e0 = (fst (combination e), CHR 0x00, 0)"
    "tile_pass e0 = 0"
    using blocks_has_untiled by blast
  from e0(2) have "mirror_symmetry_pass e0 = mirror_symmetry_pass e" "radial_symmetry_pass e0 = 0"
    by (simp_all add: combination_def)
  with e0(1,3) h(3) show ?thesis by auto
qed

text \<open>
  Claim C7. Let \<open>T\<close> be the sequence of brush-action invocations of one input step.
  Every invocation with \<open>tile_pass \<noteq> 0\<close> comes after an invocation of the same mirror/radial
  combination with \<open>tile_pass = 0\<close>; each combination that occurs has exactly one invocation
  with \<open>tile_pass = 0\<close>; and every invocation of a radial pass
  (\<open>radial_symmetry_pass \<noteq> 0\<close>) comes after the un-tiled zero-rotation invocation of the
  same mirror pass.
\<close>

theorem untiled_and_base_pass_first:
  "let T = invocations (do_symmetrical_brush_actions P rot sd bb symm log_action (ob\<lparr>invocations := []\<rparr>))
   in (\<forall>pre e post. T = pre @ e # post \<and> tile_pass e \<noteq> 0 \<longrightarrow>
         (\<exists>e0\<in>set pre. combination e0 = combination e \<and> tile_pass e0 = 0))
    \<and> (\<forall>e\<in>set T. length (filter (\<lambda>x. combination x = combination e \<and> tile_pass x = 0) T) = 1)
    \<and> (\<forall>pre e post. T = pre @ e # post \<and> radial_symmetry_pass e \<noteq> 0 \<longrightarrow>
         (\<exists>e0\<in>set pre. mirror_symmetry_pass e0 = mirror_symmetry_pass e \<and>
            radial_symmetry_pass e0 = 0 \<and> tile_pass e0 = 0))"
proof -
  let ?T = "invocations (do_symmetrical_brush_actions P rot sd bb symm log_action (ob\<lparr>invocations := []\<rparr>))"
  have b: "blocks (all_combinations sd symm) ?T" by (rule driver_blocks)
  have d: "distinct (all_combinations sd symm)" by (rule all_combinations_distinct)
  have 1: "\<forall>pre e post. ?T = pre @ e # post \<and> tile_pass e \<noteq> 0 \<longrightarrow>
         (\<exists>e0\<in>set pre. combination e0 = combination e \<and> tile_pass e0 = 0)"
    using blocks_untiled_first[OF b] by blast
  have 2: "\<forall>e\<in>set ?T. length (filter (\<lambda>x. combination x = combination e \<and> tile_pass x = 0) ?T) = 1"
    using blocks_untiled_once[OF b d] by blast
  have 3: "\<forall>pre e post. ?T = pre @ e # post \<and> radial_symmetry_pass e \<noteq> 0 \<longrightarrow>
         (\<exists>e0\<in>set pre. mirror_symmetry_pass e0 = mirror_symmetry_pass e \<and>
            radial_symmetry_pass e0 = 0 \<and> tile_pass e0 = 0)"
    using driver_base_first[OF b] by blast
  show ?thesis unfolding Let_def using 1 2 3 by (intro conjI)
qed

section \<open>The mirror passes of bitmask 7\<close>

lemma upto_0_7: "[0..(7::int)] = [0, 1, 2, 3, 4, 5, 6, 7]"
  by (simp add: upto.simps)

lemma valid_passes_7:
  "filter (\<lambda>i. SCULPT_is_symmetry_iteration_valid (word_of_int i) 7) [0..7] = [0, 1, 2, 3, 4, 5, 6, 7]"
  unfolding upto_0_7 by (simp add: SCULPT_is_symmetry_iteration_valid_def)

lemma blocks_combinations: "blocks ks T \<Longrightarrow> combination ` set T = set ks"
proof
  show "blocks ks T \<Longrightarrow> combination ` set T \<subseteq> set ks"
    using blocks_combination by blast
  show "blocks ks T \<Longrightarrow> set ks \<subseteq> combination ` set T"
  proof
    fix k
    assume "blocks ks T" "k \<in> set ks"
    then obtain e0 where "e0 \<in> set T" "combination e0 = k"
      using blocks_has_untiled by blast
    then show "k \<in> combination ` set T" by blast
  qed
qed

lemma radial_combinations_one:
  "radial_symm sd = [1, 1, 1] \<Longrightarrow> radial_combinations sd m CHR ''X'' = []"
  "radial_symm sd = [1, 1, 1] \<Longrightarrow> radial_combinations sd m CHR ''Y'' = []"
  "radial_symm sd = [1, 1, 1] \<Longrightarrow> radial_combinations sd m CHR ''Z'' = []"
  by (simp_all add: radial_combinations_def)

lemma all_combinations_7:
  assumes "radial_symm sd = [1, 1, 1]"
  shows "all_combinations sd 7 = map (\<lambda>i. (i, CHR 0x00, 0)) [0, 1, 2, 3, 4, 5, 6, 7]"
proof -
  have "[0..uint (7::8 word)] = [0, 1, 2, 3, 4, 5, 6, 7]" using upto_0_7 by simp
  then show ?thesis
    by (simp add: all_combinations_def pass_combinations_def radial_combinations_one[OF assms]
          SCULPT_is_symmetry_iteration_valid_def)
qed

text \<open>
  Claim C1, as stated, fails: with bitmask 7 the combination 3 (X and Y mirrored) is
  accepted, and 3 is not among 0, 1, 2, 4.
\<close>

theorem symmetry_7_accepts_3: "SCULPT_is_symmetry_iteration_valid 3 7 \<and> (3::8 word) \<notin> {0, 1, 2, 4}"
  by (simp add: SCULPT_is_symmetry_iteration_valid_def)

text \<open>
  Claim C1, amended. For symmetry bitmask 7 all eight mirror combinations 0..7 are accepted
  by \<open>SCULPT_is_symmetry_iteration_valid\<close>; with all radial repeat counts equal to 1 the
  combinations for which \<open>do_symmetrical_brush_actions\<close> invokes the brush action are
  exactly the eight mirror passes 0..7, each without rotation.
\<close>

theorem symmetry_7_enumerates_all_eight:
  "filter (\<lambda>i. SCULPT_is_symmetry_iteration_valid (word_of_int i) 7) [0..7] = [0, 1, 2, 3, 4, 5, 6, 7]
   \<and> (radial_symm sd = [1, 1, 1] \<longrightarrow>
        combination ` set (invocations (do_symmetrical_brush_actions P rot sd bb 7 log_action
                              (ob\<lparr>invocations := []\<rparr>)))
        = (\<lambda>i. (i, CHR 0x00, 0)) ` {0, 1, 2, 3, 4, 5, 6, 7})"
proof (intro conjI impI)
  show "filter (\<lambda>i. SCULPT_is_symmetry_iteration_valid (word_of_int i) 7) [0..7] = [0, 1, 2, 3, 4, 5, 6, 7]"
    by (rule valid_passes_7)
next
  assume r: "radial_symm sd = [1, 1, 1]"
  let ?T = "invocations (do_symmetrical_brush_actions P rot sd bb 7 log_action (ob\<lparr>invocations := []\<rparr>))"
  have "combination ` set ?T = set (all_combinations sd 7)"
    using driver_blocks by (rule blocks_combinations)
  also have "\<dots> = (\<lambda>i. (i, CHR 0x00, 0)) ` {0, 1, 2, 3, 4, 5, 6, 7}"
    unfolding all_combinations_7[OF r] by simp
  finally show "combination ` set ?T = (\<lambda>i. (i, CHR 0x00, 0)) ` {0, 1, 2, 3, 4, 5, 6, 7}" .
qed

theorem symmetry_7_enumerates_all_eight_witness:
  "radial_symm \<lparr>paint = \<lparr>symmetry_flags = 0, tile_offset = (0, 0, 0)\<rparr>, radial_symm = [1, 1, 1], flags = 0\<rparr>
     = [1, 1, 1]
   \<and> (3, CHR 0x00, 0) \<in> combination ` set (invocations (do_symmetrical_brush_actions 16 (\<lambda>a t p. p)
        \<lparr>paint = \<lparr>symmetry_flags = 0, tile_offset = (0, 0, 0)\<rparr>, radial_symm = [1, 1, 1], flags = 0\<rparr>
        example_bb 7 log_action \<lparr>cache = example_cache, invocations = []\<rparr>))"
proof -
  let ?sd = "\<lparr>paint = \<lparr>symmetry_flags = 0, tile_offset = (0, 0, 0)\<rparr>, radial_symm = [1, 1, 1], flags = 0\<rparr>"
  let ?ob = "\<lparr>cache = example_cache, invocations = []\<rparr>"
  have r: "radial_symm ?sd = [1, 1, 1]" by simp
  have ob: "?ob\<lparr>invocations := []\<rparr> = ?ob" by simp
  from symmetry_7_enumerates_all_eight[of ?sd 16 "\<lambda>a t p. p" example_bb ?ob] r
  have "combination ` set (invocations (do_symmetrical_brush_actions 16 (\<lambda>a t p. p) ?sd example_bb 7
          log_action ?ob)) = (\<lambda>i. (i, CHR 0x00, 0)) ` {0, 1, 2, 3, 4, 5, 6, 7}"
    unfolding ob by blast
  then show ?thesis using r by simp
qed

section \<open>A stroke step with tiling along X and two radial repeats about X\<close>

lemma upto_small:
  "[0..(0::int)] = [0]" "[0..(1::int)] = [0, 1]" "[1..(0::int)] = []" "[1..(1::int)] = [1]"
  "[- 1..(1::int)] = [- 1, 0, 1]"
  by (simp_all add: upto.simps)

lemma example_tile_bounds: "tile_start 16 example_sd example_bb (0,0,0) (1/2) 0 = -1"
  "tile_start 16 example_sd example_bb (0,0,0) (1/2) (Suc 0) = 0"
  "tile_start 16 example_sd example_bb (0,0,0) (1/2) 2 = 0"
  "tile_end 16 example_sd example_bb (0,0,0) (1/2) 0 = 1"
  "tile_end 16 example_sd example_bb (0,0,0) (1/2) (Suc 0) = 0"
  "tile_end 16 example_sd example_bb (0,0,0) (1/2) 2 = 0"
  by (simp_all add: tile_start_def tile_end_def example_sd_def example_bb_def trunc_int_def Let_def)

lemma example_tile_offset: "tile_offset (paint example_sd) = (1,1,1)"
  by (simp add: example_sd_def)

lemma example_do_tiled:
  assumes "location c = (0,0,0)" "radius c = 1/2" "initial_location c = (0,0,0)"
  shows "do_tiled 16 example_sd example_bb log_action \<lparr>cache = c, invocations = L\<rparr> =
     \<lparr>cache = c\<lparr>tile_pass := 2, location := (1,0,0), plane_offset := (1,0,0), initial_location := (1,0,0)\<rparr>,
      invocations = L @ [c\<lparr>tile_pass := 0\<rparr>,
          c\<lparr>tile_pass := 1, location := (-1,0,0), plane_offset := (-1,0,0), initial_location := (-1,0,0)\<rparr>,
          c\<lparr>tile_pass := 2, location := (1,0,0), plane_offset := (1,0,0), initial_location := (1,0,0)\<rparr>]\<rparr>"
proof -
  have "do_tiled 16 example_sd example_bb log_action \<lparr>cache = c, invocations = L\<rparr> =
      fold (\<lambda>c0. fold (\<lambda>c1. fold (\<lambda>c2.
                 do_tile log_action (1,1,1) (0,0,0) (0,0,0) (c0, c1, c2))
               [0]) [0]) [-1,0,1] (log_action \<lparr>cache = c\<lparr>tile_pass := 0\<rparr>, invocations = L\<rparr>)"
    unfolding do_tiled_def Let_def by (simp add: assms example_tile_bounds upto_small example_tile_offset)
  then show ?thesis
    by (simp add: do_tile_def log_action_def Let_def)
qed

lemma example_radial_symm: "radial_symm example_sd = [2,1,1]"
  by (simp add: example_sd_def)

lemma example_calc_brushdata:
  "true_location c = (0,0,0) \<Longrightarrow> true_initial_location c = (0,0,0) \<Longrightarrow>
   SCULPT_cache_calc_brushdata_symm (\<lambda>a t p. p) c 0 axis angle =
     c\<lparr>location := (0,0,0), initial_location := (0,0,0), symm_rot_axis := axis,
       symm_rot_angle := (if axis = CHR 0x00 then 0 else angle), plane_offset := (0,0,0)\<rparr>"
  by (simp add: SCULPT_cache_calc_brushdata_symm_def Let_def)

lemma example_trace:
  "map (\<lambda>e. (combination e, tile_pass e))
     (invocations (do_symmetrical_brush_actions 16 (\<lambda>a t p. p) example_sd example_bb 0 log_action
        \<lparr>cache = example_cache, invocations = []\<rparr>)) =
   [((0, CHR 0x00, 0), 0), ((0, CHR 0x00, 0), 1), ((0, CHR 0x00, 0), 2),
    ((0, CHR ''X'', 1), 0), ((0, CHR ''X'', 1), 1), ((0, CHR ''X'', 1), 2)]"
  unfolding do_symmetrical_brush_actions_def do_radial_symmetry_def
  by (simp add: upto_small SCULPT_is_symmetry_iteration_valid_def example_radial_symm
        example_calc_brushdata example_do_tiled example_cache_def combination_def)

theorem untiled_and_base_pass_first_witness:
  "let T = invocations (do_symmetrical_brush_actions 16 (\<lambda>a t p. p) example_sd example_bb 0 log_action
             \<lparr>cache = example_cache, invocations = []\<rparr>)
   in T = take 4 T @ T ! 4 # drop 5 T \<and> tile_pass (T ! 4) \<noteq> 0 \<and> radial_symmetry_pass (T ! 4) \<noteq> 0
      \<and> T ! 4 \<in> set T
      \<and> (\<exists>e0\<in>set (take 4 T). combination e0 = combination (T ! 4) \<and> tile_pass e0 = 0)
      \<and> length (filter (\<lambda>x. combination x = combination (T ! 4) \<and> tile_pass x = 0) T) = 1
      \<and> (\<exists>e0\<in>set (take 4 T). mirror_symmetry_pass e0 = mirror_symmetry_pass (T ! 4) \<and>
            radial_symmetry_pass e0 = 0 \<and> tile_pass e0 = 0)"
proof -
  let ?ob = "\<lparr>cache = example_cache, invocations = []\<rparr>"
  let ?T = "invocations (do_symmetrical_brush_actions 16 (\<lambda>a t p. p) example_sd example_bb 0 log_action ?ob)"
  have tr: "map (\<lambda>e. (combination e, tile_pass e)) ?T =
     [((0, CHR 0x00, 0), 0), ((0, CHR 0x00, 0), 1), ((0, CHR 0x00, 0), 2),
      ((0, CHR ''X'', 1), 0), ((0, CHR ''X'', 1), 1), ((0, CHR ''X'', 1), 2)]"
    by (rule example_trace)
  have len: "length ?T = 6" using arg_cong[OF tr, of length] by simp
  have "map (\<lambda>e. (combination e, tile_pass e)) ?T ! 4 = ((0, CHR ''X'', 1), 1)"
    unfolding tr by simp
  then have e4: "combination (?T ! 4) = (0, CHR ''X'', 1)" "tile_pass (?T ! 4) = 1"
    using len by simp_all
  have split: "?T = take 4 ?T @ ?T ! 4 # drop 5 ?T"
    using len id_take_nth_drop[of 4 ?T] by simp
  have mem: "?T ! 4 \<in> set ?T" using len by simp
  have t: "tile_pass (?T ! 4) \<noteq> 0" using e4(2) by simp
  have r: "radial_symmetry_pass (?T ! 4) \<noteq> 0" using e4(1) by (simp add: combination_def)
  have ob: "?ob\<lparr>invocations := []\<rparr> = ?ob" by simp
  from untiled_and_base_pass_first[of 16 "\<lambda>a t p. p" example_sd example_bb 0 ?ob]
  have main:
    "\<forall>pre e post. ?T = pre @ e # post \<and> tile_pass e \<noteq> 0 \<longrightarrow>
         (\<exists>e0\<in>set pre. combination e0 = combination e \<and> tile_pass e0 = 0)"
    "\<forall>e\<in>set ?T. length (filter (\<lambda>x. combination x = combination e \<and> tile_pass x = 0) ?T) = 1"
    "\<forall>pre e post. ?T = pre @ e # post \<and> radial_symmetry_pass e \<noteq> 0 \<longrightarrow>
         (\<exists>e0\<in>set pre. mirror_symmetry_pass e0 = mirror_symmetry_pass e \<and>
            radial_symmetry_pass e0 = 0 \<and> tile_pass e0 = 0)"
    unfolding Let_def ob by blast+
  have 1: "\<exists>e0\<in>set (take 4 ?T). combination e0 = combination (?T ! 4) \<and> tile_pass e0 = 0"
    using main(1) split t by blast
  have 2: "length (filter (\<lambda>x. combination x = combination (?T ! 4) \<and> tile_pass x = 0) ?T) = 1"
    using main(2) mem by blast
  have 3: "\<exists>e0\<in>set (take 4 ?T). mirror_symmetry_pass e0 = mirror_symmetry_pass (?T ! 4) \<and>
            radial_symmetry_pass e0 = 0 \<and> tile_pass e0 = 0"
    using main(3) split r by blast
  show ?thesis unfolding Let_def using split t r mem 1 2 3 by (intro conjI)
qed

lemma fold_set_zero:
  "fold (\<lambda>i fs. if P i then fs[i := (0::real)] else fs) [0..<n] fs =
     map (\<lambda>i. if i < n \<and> P i then 0 else fs ! i) [0..<length fs]"
proof (induction n)
  case 0
  show ?case by (simp add: map_nth)
next
  case (Suc n)
  let ?f = "\<lambda>i fs. if P i then fs[i := (0::real)] else fs"
  have "fold ?f [0..<Suc n] fs = ?f n (fold ?f [0..<n] fs)" by simp
  also have "\<dots> = ?f n (map (\<lambda>i. if i < n \<and> P i then 0 else fs ! i) [0..<length fs])"
    by (simp only: Suc)
  also have "\<dots> = map (\<lambda>i. if i < Suc n \<and> P i then 0 else fs ! i) [0..<length fs]"
  proof (rule nth_equalityI)
    show "length (?f n (map (\<lambda>i. if i < n \<and> P i then 0 else fs ! i) [0..<length fs])) =
          length (map (\<lambda>i. if i < Suc n \<and> P i then 0 else fs ! i) [0..<length fs])"
      by simp
  next
    fix i
    assume "i < length (?f n (map (\<lambda>i. if i < n \<and> P i then 0 else fs ! i) [0..<length fs]))"
    then have i: "i < length fs" by (simp split: if_splits)
    show "?f n (map (\<lambda>i. if i < n \<and> P i then 0 else fs ! i) [0..<length fs]) ! i =
          map (\<lambda>i. if i < Suc n \<and> P i then 0 else fs ! i) [0..<length fs] ! i"
    proof (cases "i = n")
      case True
      then show ?thesis using i by simp
    next
      case False
      then show ?thesis using i by (auto simp: less_Suc_eq)
    qed
  qed
  finally show ?case .
qed

lemma fold_set_zero_nth:
  "i < length fs \<Longrightarrow>
   fold (\<lambda>i fs. if P i then fs[i := (0::real)] else fs) [0..<n] fs ! i = (if i < n \<and> P i then 0 else fs ! i)"
  by (simp add: fold_set_zero)

lemma fold_set_zero_length:
  "length (fold (\<lambda>i fs. if P i then fs[i := (0::real)] else fs) [0..<n] fs) = length fs"
  by (simp add: fold_set_zero)

lemma filter_distances_with_radius_nth:
  "i < length factors \<Longrightarrow> length factors = length distances \<Longrightarrow>
   filter_distances_with_radius r distances factors ! i = (if distances ! i > r then 0 else factors ! i)"
  by (simp add: filter_distances_with_radius_def fold_set_zero_nth)

section \<open>Comparisons at the threshold\<close>



section \<open>Tube culling\<close>

text \<open>
  Claim C9. \<open>node_in_cylinder\<close> returns true for every node, every radius and every
  ray, whatever distance the ray-to-box function computes.
\<close>

theorem node_in_cylinder_always_true:
  "node_in_cylinder dist_squared_ray_to_aabb_v3 ray_dist_precalc node radius_sq original"
  by (simp add: node_in_cylinder_def Let_def)

section \<open>The cube test at roundness 0\<close>

text \<open>
  Claim C10. With \<open>roundness = 0\<close> the cube test never reaches a division by the zero
  \<open>falloff_side\<close>: a point that is not clipped and has all absolute local coordinates
  at most \<open>side = 1\<close> takes the flat-interior branch, which returns true with
  \<open>dist = 0\<close>.
\<close>

theorem cube_test_roundness_zero:
  "SCULPT_brush_test_cube clip test co local 0 \<noteq> Inl DivisionByZero
   \<and> (\<not> sculpt_brush_test_clipping clip test co \<and>
        v3_get (abs_v3 (transform_point local co)) 0 \<le> 1 \<and>
        v3_get (abs_v3 (transform_point local co)) 1 \<le> 1 \<and>
        v3_get (abs_v3 (transform_point local co)) 2 \<le> 1 \<longrightarrow>
      SCULPT_brush_test_cube clip test co local 0 = Inr (True, test\<lparr>test_dist := 0\<rparr>))"
  by (auto simp: SCULPT_brush_test_cube_def Let_def)



theorem node_in_cylinder_always_true_witness:
  "node_in_cylinder (\<lambda>(p::unit) lo hi. 100) ()
     \<lparr>node_bounds = \<lparr>bmin = (1, 0, 0), bmax = (2, 0, 0)\<rparr>,
      original_BB = \<lparr>bmin = (1, 0, 0), bmax = (2, 0, 0)\<rparr>\<rparr> 1 False"
  using node_in_cylinder_always_true[of "\<lambda>(p::unit) lo hi. 100" "()"
     "\<lparr>node_bounds = \<lparr>bmin = (1, 0, 0), bmax = (2, 0, 0)\<rparr>,
      original_BB = \<lparr>bmin = (1, 0, 0), bmax = (2, 0, 0)\<rparr>\<rparr>" 1 False]
  by simp

theorem cube_test_roundness_zero_witness:
  "\<not> sculpt_brush_test_clipping (\<lambda>(rv::unit) p l. True)
         \<lparr>radius_squared = 1, test_radius = 1, test_location = (0, 0, 0), test_dist = 5,
          test_mirror_symmetry_pass = 0, test_radial_symmetry_pass = 0,
          test_symm_rot_mat_inv = identity_m4, clip_rv3d = None\<rparr> (1, - 1, 1 / 2)
   \<and> v3_get (abs_v3 (transform_point identity_m4 (1, - 1, 1 / 2))) 0 \<le> 1
   \<and> v3_get (abs_v3 (transform_point identity_m4 (1, - 1, 1 / 2))) 1 \<le> 1
   \<and> v3_get (abs_v3 (transform_point identity_m4 (1, - 1, 1 / 2))) 2 \<le> 1
   \<and> SCULPT_brush_test_cube (\<lambda>(rv::unit) p l. True)
         \<lparr>radius_squared = 1, test_radius = 1, test_location = (0, 0, 0), test_dist = 5,
          test_mirror_symmetry_pass = 0, test_radial_symmetry_pass = 0,
          test_symm_rot_mat_inv = identity_m4, clip_rv3d = None\<rparr> (1, - 1, 1 / 2) identity_m4 0
       = Inr (True, \<lparr>radius_squared = 1, test_radius = 1, test_location = (0, 0, 0), test_dist = 0,
          test_mirror_symmetry_pass = 0, test_radial_symmetry_pass = 0,
          test_symm_rot_mat_inv = identity_m4, clip_rv3d = None\<rparr>)"
proof -
  let ?test = "\<lparr>radius_squared = 1, test_radius = 1, test_location = (0, 0, 0), test_dist = 5,
          test_mirror_symmetry_pass = 0, test_radial_symmetry_pass = 0,
          test_symm_rot_mat_inv = identity_m4, clip_rv3d = None\<rparr> :: unit SculptBrushTest"
  have h1: "\<not> sculpt_brush_test_clipping (\<lambda>(rv::unit) p l. True) ?test (1, - 1, 1 / 2)"
    by (simp add: sculpt_brush_test_clipping_def)
  have h2: "v3_get (abs_v3 (transform_point identity_m4 (1, - 1, 1 / 2))) 0 \<le> 1"
    "v3_get (abs_v3 (transform_point identity_m4 (1, - 1, 1 / 2))) 1 \<le> 1"
    "v3_get (abs_v3 (transform_point identity_m4 (1, - 1, 1 / 2))) 2 \<le> 1"
    by (simp_all add: identity_m4_def)
  from cube_test_roundness_zero[of "\<lambda>(rv::unit) p l. True" ?test "(1, - 1, 1 / 2)" identity_m4] h1 h2
  have "SCULPT_brush_test_cube (\<lambda>(rv::unit) p l. True) ?test (1, - 1, 1 / 2) identity_m4 0
          = Inr (True, ?test\<lparr>test_dist := 0\<rparr>)"
    by blast
  then show ?thesis using h1 h2 by simp
qed

section \<open>Hardness remap\<close>

text \<open>The roundings met by the examples below, one operation each.\<close>

lemma hardness_round_1: "f_div 2 2 = 1"
  unfolding f_div_def
  by (rule float32_round_eqI[where e = 0 and k = 8388608]) (simp_all add: pow2_def)

lemma hardness_round_2: "f_div (31 / 8) 7 = 9287387 / 16777216"
  unfolding f_div_def
  by (rule float32_round_eqI[where e = "- 1" and k = 9287387]) (simp_all add: pow2_def)

lemma hardness_round_3: "f_sub (9287387 / 16777216) 0 = 9287387 / 16777216"
  unfolding f_sub_def
  by (rule float32_round_eqI[where e = "- 1" and k = 9287387]) (simp_all add: pow2_def)

lemma hardness_round_4: "f_sub 1 0 = 1"
  unfolding f_sub_def
  by (rule float32_round_eqI[where e = 0 and k = 8388608]) (simp_all add: pow2_def)

lemma hardness_round_5: "f_div (9287387 / 16777216) 1 = 9287387 / 16777216"
  unfolding f_div_def
  by (rule float32_round_eqI[where e = "- 1" and k = 9287387]) (simp_all add: pow2_def)

lemma hardness_round_6: "f_mul (9287387 / 16777216) 7 = 16252927 / 4194304"
  unfolding f_mul_def
  by (rule float32_round_eqI[where e = 1 and k = 16252927]) (simp_all add: pow2_def)

lemma hardness_round_7: "f_div (- 1) 1 = - 1"
  unfolding f_div_def
  by (rule float32_round_eqI[where e = 0 and k = "- 8388608"]) (simp_all add: pow2_def)

lemma hardness_round_8: "f_div 2 3 = 11184811 / 16777216"
  unfolding f_div_def
  by (rule float32_round_eqI[where e = "- 1" and k = 11184811]) (simp_all add: pow2_def)

lemma hardness_round_9: "f_sub (11184811 / 16777216) (1 / 2) = 2796203 / 16777216"
  unfolding f_sub_def
  by (rule float32_round_eqI[where e = "- 3" and k = 11184812]) (simp_all add: pow2_def)

lemma hardness_round_10: "f_sub 1 (1 / 2) = 1 / 2"
  unfolding f_sub_def
  by (rule float32_round_eqI[where e = "- 1" and k = 8388608]) (simp_all add: pow2_def)

lemma hardness_round_11: "f_div (2796203 / 16777216) (1 / 2) = 2796203 / 8388608"
  unfolding f_div_def
  by (rule float32_round_eqI[where e = "- 2" and k = 11184812]) (simp_all add: pow2_def)

lemma hardness_round_12: "f_mul (2796203 / 8388608) 3 = 8388609 / 8388608"
  unfolding f_mul_def
  by (rule float32_round_eqI[where e = 0 and k = 8388609]) (simp_all add: pow2_def)

lemma hardness_round_13: "f_mul (1 / 2) 3 = 3 / 2"
  unfolding f_mul_def
  by (rule float32_round_eqI[where e = 0 and k = 12582912]) (simp_all add: pow2_def)

lemma hardness_round_14: "f_div 1 3 = 11184811 / 33554432"
  unfolding f_div_def
  by (rule float32_round_eqI[where e = "- 2" and k = 11184811]) (simp_all add: pow2_def)

lemma hardness_round_15: "f_div 1 (1 / 2) = 2"
  unfolding f_div_def
  by (rule float32_round_eqI[where e = 1 and k = 8388608]) (simp_all add: pow2_def)

lemma hardness_round_16: "f_mul 2 (11184811 / 33554432) = 11184811 / 16777216"
  unfolding f_mul_def
  by (rule float32_round_eqI[where e = "- 1" and k = 11184811]) (simp_all add: pow2_def)

lemma hardness_round_17: "f_mul (2796203 / 16777216) 2 = 2796203 / 8388608"
  unfolding f_mul_def
  by (rule float32_round_eqI[where e = "- 2" and k = 11184812]) (simp_all add: pow2_def)

lemma hardness_round_18: "f_mul (14100999 / 16777216) (11343905 / 8388608) = 4767191 / 4194304"
  unfolding f_mul_def
  by (rule float32_round_eqI[where e = 0 and k = 9534382]) (simp_all add: pow2_def)

lemma hardness_round_19: "f_div 1 (11343905 / 8388608) = 12406441 / 16777216"
  unfolding f_div_def
  by (rule float32_round_eqI[where e = "- 1" and k = 12406441]) (simp_all add: pow2_def)

lemma hardness_round_20: "f_sub 1 (14100999 / 16777216) = 2676217 / 16777216"
  unfolding f_sub_def
  by (rule float32_round_eqI[where e = "- 3" and k = 10704868]) (simp_all add: pow2_def)

lemma hardness_round_21: "f_div 1 (2676217 / 16777216) = 13147055 / 2097152"
  unfolding f_div_def
  by (rule float32_round_eqI[where e = 2 and k = 13147055]) (simp_all add: pow2_def)

lemma hardness_round_22: "f_mul (4767191 / 4194304) (12406441 / 16777216) = 7050499 / 8388608"
  unfolding f_mul_def
  by (rule float32_round_eqI[where e = "- 1" and k = 14100998]) (simp_all add: pow2_def)

lemma hardness_round_23: "f_sub (7050499 / 8388608) (14100999 / 16777216) = - (1 / 16777216)"
  unfolding f_sub_def
  by (rule float32_round_eqI[where e = "- 24" and k = "- 8388608"]) (simp_all add: pow2_def)

lemma hardness_round_24: "f_mul (- (1 / 16777216)) (13147055 / 2097152) = - (13147055 / 35184372088832)"
  unfolding f_mul_def
  by (rule float32_round_eqI[where e = "- 22" and k = "- 13147055"]) (simp_all add: pow2_def)

lemma hardness_round_25: "f_mul (- (13147055 / 35184372088832)) (11343905 / 8388608) = - (4444687 / 8796093022208)"
  unfolding f_mul_def
  by (rule float32_round_eqI[where e = "- 21" and k = "- 8889374"]) (simp_all add: pow2_def)

lemma hardness_round_26: "f_div (5 / 4) 2 = 5 / 8"
  unfolding f_div_def
  by (rule float32_round_eqI[where e = "- 1" and k = 10485760]) (simp_all add: pow2_def)

lemma hardness_round_27: "f_sub (5 / 8) (1 / 4) = 3 / 8"
  unfolding f_sub_def
  by (rule float32_round_eqI[where e = "- 2" and k = 12582912]) (simp_all add: pow2_def)

lemma hardness_round_28: "f_sub 1 (1 / 4) = 3 / 4"
  unfolding f_sub_def
  by (rule float32_round_eqI[where e = "- 1" and k = 12582912]) (simp_all add: pow2_def)

lemma hardness_round_29: "f_div (3 / 8) (3 / 4) = 1 / 2"
  unfolding f_div_def
  by (rule float32_round_eqI[where e = "- 1" and k = 8388608]) (simp_all add: pow2_def)

lemma hardness_round_30: "f_mul (1 / 2) 2 = 1"
  unfolding f_mul_def
  by (rule float32_round_eqI[where e = 0 and k = 8388608]) (simp_all add: pow2_def)

lemma hardness_round_31: "f_div (1 / 4) 2 = 1 / 8"
  unfolding f_div_def
  by (rule float32_round_eqI[where e = "- 3" and k = 8388608]) (simp_all add: pow2_def)

lemma hardness_round_32: "f_mul (1 / 4) 2 = 1 / 2"
  unfolding f_mul_def
  by (rule float32_round_eqI[where e = "- 1" and k = 8388608]) (simp_all add: pow2_def)

lemma hardness_round_33: "f_div 1 2 = 1 / 2"
  unfolding f_div_def
  by (rule float32_round_eqI[where e = "- 1" and k = 8388608]) (simp_all add: pow2_def)

lemma hardness_round_34: "f_div 1 (3 / 4) = 11184811 / 8388608"
  unfolding f_div_def
  by (rule float32_round_eqI[where e = 0 and k = 11184811]) (simp_all add: pow2_def)

lemma hardness_round_35: "f_mul (5 / 4) (1 / 2) = 5 / 8"
  unfolding f_mul_def
  by (rule float32_round_eqI[where e = "- 1" and k = 10485760]) (simp_all add: pow2_def)

lemma hardness_round_36: "f_mul (3 / 8) (11184811 / 8388608) = 1 / 2"
  unfolding f_mul_def
  by (rule float32_round_eqI[where e = "- 1" and k = 8388608]) (simp_all add: pow2_def)

lemma hardness_round_37: "f_div 3 2 = 3 / 2"
  unfolding f_div_def
  by (rule float32_round_eqI[where e = 0 and k = 12582912]) (simp_all add: pow2_def)

lemma hardness_round_38: "f_sub (3 / 2) 0 = 3 / 2"
  unfolding f_sub_def
  by (rule float32_round_eqI[where e = 0 and k = 12582912]) (simp_all add: pow2_def)

lemma hardness_round_39: "f_div (3 / 2) 1 = 3 / 2"
  unfolding f_div_def
  by (rule float32_round_eqI[where e = 0 and k = 12582912]) (simp_all add: pow2_def)

lemma hardness_round_40: "f_mul (3 / 2) 2 = 3"
  unfolding f_mul_def
  by (rule float32_round_eqI[where e = 1 and k = 12582912]) (simp_all add: pow2_def)

lemma hardness_round_41: "f_sub (1 / 2) (1 / 2) = 0"
  by (simp add: f_sub_def float32_round_0)

lemma hardness_round_42: "f_div 0 (1 / 2) = 0"
  by (simp add: f_div_def float32_round_0)

lemma hardness_round_43: "f_mul 0 2 = 0"
  by (simp add: f_mul_def float32_round_0)

lemma hardness_round_44: "f_mul 1 (1 / 2) = 1 / 2"
  unfolding f_mul_def
  by (rule float32_round_eqI[where e = "- 1" and k = 8388608]) (simp_all add: pow2_def)

lemmas hardness_round = hardness_round_1 hardness_round_2 hardness_round_3 hardness_round_4 hardness_round_5 hardness_round_6 hardness_round_7 hardness_round_8 hardness_round_9 hardness_round_10 hardness_round_11 hardness_round_12 hardness_round_13 hardness_round_14 hardness_round_15 hardness_round_16 hardness_round_17 hardness_round_18 hardness_round_19 hardness_round_20 hardness_round_21 hardness_round_22 hardness_round_23 hardness_round_24 hardness_round_25 hardness_round_26 hardness_round_27 hardness_round_28 hardness_round_29 hardness_round_30 hardness_round_31 hardness_round_32 hardness_round_33 hardness_round_34 hardness_round_35 hardness_round_36 hardness_round_37 hardness_round_38 hardness_round_39 hardness_round_40 hardness_round_41 hardness_round_42 hardness_round_43 hardness_round_44

lemma hardness_zero_quotient:
  "f_mul (f_div (f_sub 0 0) (f_sub 1 0)) r = 0"
  by (simp add: f_mul_def f_div_def f_sub_def float32_round_0 float32_round_1)

lemma hardness_at_threshold:
  "f_mul (f_div (f_sub h h) c) r = 0"
  by (simp add: f_mul_def f_div_def f_sub_def float32_round_0)

lemma sculpt_apply_hardness_zero:
  assumes "0 < r"
  shows "sculpt_apply_hardness r 0 d = (if d < 0 then 0 else f_mul (f_div d r) r)"
proof (cases "d < 0")
  case True
  then have "d / r \<le> 0" using assms by (simp add: divide_nonpos_pos)
  then have "f_div d r \<le> 0" unfolding f_div_def by (rule float32_round_nonpos)
  then consider "f_div d r < 0" | "f_div d r = 0" by linarith
  then show ?thesis
  proof cases
    case 1
    then show ?thesis using True by (simp add: sculpt_apply_hardness_def Let_def)
  next
    case 2
    then show ?thesis using True
      by (simp add: sculpt_apply_hardness_def Let_def hardness_zero_quotient)
  qed
next
  case False
  then have q: "0 \<le> d / r" using assms by simp
  then have p: "0 \<le> f_div d r" unfolding f_div_def by (rule float32_round_nonneg)
  have "f_div (f_sub (f_div d r) 0) (f_sub 1 0) = float32_round (float32_round (d / r))"
    by (simp add: f_div_def f_sub_def float32_round_1 float32_round_idem[OF q])
  also have "\<dots> = f_div d r" unfolding f_div_def using q by (rule float32_round_idem)
  finally show ?thesis using False p by (simp add: sculpt_apply_hardness_def Let_def)
qed

lemma sculpt_apply_hardness_between:
  assumes "0 < r" "0 < h" "h < 1" "float32_round h = h"
  shows "sculpt_apply_hardness r h d =
           (if d < h * r then 0 else f_mul (f_div (f_sub (f_div d r) h) (f_sub 1 h)) r)"
proof (cases "d < h * r")
  case True
  then have lt: "d / r < h" using assms(1) by (simp add: pos_divide_less_eq)
  have "f_div d r \<le> h"
  proof (cases "0 \<le> d / r")
    case True
    then have "float32_round (d / r) \<le> float32_round h" using lt by (intro float32_round_mono) simp_all
    then show ?thesis using assms(4) by (simp add: f_div_def)
  next
    case False
    then have "float32_round (d / r) \<le> 0" by (intro float32_round_nonpos) simp
    then show ?thesis using assms(2) by (simp add: f_div_def)
  qed
  then consider "f_div d r < h" | "f_div d r = h" by linarith
  then show ?thesis
  proof cases
    case 1
    then show ?thesis using True by (simp add: sculpt_apply_hardness_def Let_def)
  next
    case 2
    then show ?thesis using True assms(3)
      by (simp add: sculpt_apply_hardness_def Let_def hardness_at_threshold)
  qed
next
  case False
  then have ge: "h \<le> d / r" using assms(1) by (simp add: pos_le_divide_eq)
  have "float32_round h \<le> float32_round (d / r)" using assms(2) ge by (intro float32_round_mono) simp_all
  then have "\<not> f_div d r < h" using assms(4) by (simp add: f_div_def)
  then show ?thesis using False assms(3) by (simp add: sculpt_apply_hardness_def Let_def)
qed

lemma sculpt_apply_hardness_one:
  assumes "0 < r" "float32_round d = d" "float32_round r = r"
  shows "sculpt_apply_hardness r 1 d = (if d < r then 0 else r)"
proof (cases "d < r")
  case True
  have "f_div d r < 1"
  proof (cases "0 < d")
    case True
    with \<open>d < r\<close> have "d / r \<le> 16777215 / 16777216"
      using assms(2,3) by (intro float32_quotient_below_1)
    moreover have "0 \<le> d / r" using True assms(1) by simp
    ultimately show ?thesis unfolding f_div_def by (intro float32_round_below_1)
  next
    case False
    then have "d / r \<le> 0" using assms(1) by (simp add: divide_nonpos_pos)
    then have "float32_round (d / r) \<le> 0" by (rule float32_round_nonpos)
    then show ?thesis by (simp add: f_div_def)
  qed
  then show ?thesis using True by (simp add: sculpt_apply_hardness_def Let_def)
next
  case False
  then have "1 \<le> d / r" using assms(1) by (simp add: pos_le_divide_eq)
  then have "float32_round 1 \<le> float32_round (d / r)" by (intro float32_round_mono) simp_all
  then have "\<not> f_div d r < 1" by (simp add: f_div_def float32_round_1)
  then show ?thesis using False by (simp add: sculpt_apply_hardness_def Let_def)
qed

text \<open>
  Claim C2, as stated, fails. With hardness 1, radius 2 and distance 2 (so \<open>d \<le> r\<close>) the
  scalar \<open>sculpt_apply_hardness\<close> returns 2, not 0. With hardness 0 it returns
  \<open>fl(fl(d / r) * r)\<close>, which for \<open>r = 7\<close>, \<open>d = 3.875\<close> is
  \<open>16252927 / 4194304 = 3.87499976...\<close>, not \<open>d\<close>, and for a negative distance it returns 0.
  With hardness \<open>1/2\<close>, \<open>r = 3\<close> and \<open>d = 2\<close> the formula of the claim gives 1 and both
  remaps return \<open>8388609 / 8388608\<close>. The array remap compares with the rounded threshold
  \<open>fl(h * r)\<close>: for \<open>r = 11343905 / 8388608\<close>, \<open>h = 14100999 / 16777216\<close> and
  \<open>d = 4767191 / 4194304\<close> (about 1.3522989, 0.8404850 and 1.1365869), \<open>d < h * r\<close>
  holds and the result is about \<open>-5.05e-7\<close>, not 0.
\<close>

theorem hardness_remap_fails:
  "sculpt_apply_hardness 2 1 2 = 2
   \<and> sculpt_apply_hardness 7 0 (31 / 8) = 16252927 / 4194304
   \<and> sculpt_apply_hardness 1 0 (- 1) = 0
   \<and> ((2 / 3 - 1 / 2) / (1 - 1 / 2)) * 3 = (1::real)
   \<and> sculpt_apply_hardness 3 (1 / 2) 2 = 8388609 / 8388608
   \<and> apply_hardness_to_distances 3 (1 / 2) [2] = [8388609 / 8388608]
   \<and> (4767191 / 4194304 :: real) < 14100999 / 16777216 * (11343905 / 8388608)
   \<and> apply_hardness_to_distances (11343905 / 8388608) (14100999 / 16777216) [4767191 / 4194304]
       = [- (4444687 / 8796093022208)]"
proof -
  have a: "sculpt_apply_hardness 2 1 2 = 2"
    by (simp add: sculpt_apply_hardness_def Let_def hardness_round)
  have b: "sculpt_apply_hardness 7 0 (31 / 8) = 16252927 / 4194304"
    by (simp add: sculpt_apply_hardness_def Let_def hardness_round)
  have c: "sculpt_apply_hardness 1 0 (- 1) = 0"
    by (simp add: sculpt_apply_hardness_def Let_def hardness_round)
  have d: "((2 / 3 - 1 / 2) / (1 - 1 / 2)) * 3 = (1::real)" by simp
  have e: "sculpt_apply_hardness 3 (1 / 2) 2 = 8388609 / 8388608"
    by (simp add: sculpt_apply_hardness_def Let_def hardness_round)
  have f: "apply_hardness_to_distances 3 (1 / 2) [2] = [8388609 / 8388608]"
    by (simp add: apply_hardness_to_distances_def rcp_def Let_def hardness_round)
  have g: "(4767191 / 4194304 :: real) < 14100999 / 16777216 * (11343905 / 8388608)" by simp
  have h: "apply_hardness_to_distances (11343905 / 8388608) (14100999 / 16777216) [4767191 / 4194304]
       = [- (4444687 / 8796093022208)]"
    by (simp add: apply_hardness_to_distances_def rcp_def Let_def hardness_round)
  show ?thesis using a b c d e f g h by (simp only: simp_thms)
qed

text \<open>
  Claim C2, amended. Every operation is rounded to single precision (\<open>fl\<close>). For every
  radius \<open>r > 0\<close>: with hardness 0 the array remap leaves every distance unchanged and the
  scalar remap returns \<open>fl(fl(d / r) * r)\<close> for \<open>d \<ge> 0\<close> and 0 for \<open>d < 0\<close>; with a
  single-precision hardness \<open>h\<close> in (0,1) the scalar remap returns 0 when \<open>d < h * r\<close> and
  \<open>fl(fl(fl(fl(d / r) - h) / fl(1 - h)) * r)\<close> otherwise, and the array remap returns 0 when
  \<open>d < fl(h * r)\<close> and \<open>fl(fl(fl(fl(d * fl(1 / r)) - h) * fl(1 / fl(1 - h))) * r)\<close>
  otherwise (so \<open>d = 1\<close>, \<open>r = 2\<close>, \<open>h = 1/2\<close> yields 0 in both); with hardness 1 the
  array remap returns 0 for every distance, and for single-precision \<open>d\<close> and \<open>r\<close> the
  scalar remap returns 0 for \<open>d < r\<close> and \<open>r\<close> for \<open>d \<ge> r\<close>.
\<close>

theorem hardness_remap:
  assumes "0 < r"
  shows "apply_hardness_to_distances r 0 ds = ds
   \<and> sculpt_apply_hardness r 0 d = (if d < 0 then 0 else f_mul (f_div d r) r)
   \<and> (0 < h \<and> h < 1 \<and> float32_round h = h \<longrightarrow>
        sculpt_apply_hardness r h d =
          (if d < h * r then 0 else f_mul (f_div (f_sub (f_div d r) h) (f_sub 1 h)) r)
      \<and> apply_hardness_to_distances r h ds =
          map (\<lambda>d. if d < f_mul h r then 0
                    else f_mul (f_mul (f_sub (f_mul d (f_div 1 r)) h) (f_div 1 (f_sub 1 h))) r) ds)
   \<and> sculpt_apply_hardness 2 (1 / 2) 1 = 0
   \<and> apply_hardness_to_distances 2 (1 / 2) [1] = [0]
   \<and> apply_hardness_to_distances r 1 ds = map (\<lambda>_. 0) ds
   \<and> (float32_round d = d \<and> float32_round r = r \<longrightarrow>
        sculpt_apply_hardness r 1 d = (if d < r then 0 else r))"
proof -
  have a: "apply_hardness_to_distances r 0 ds = ds"
    by (simp add: apply_hardness_to_distances_def)
  have b: "sculpt_apply_hardness r 0 d = (if d < 0 then 0 else f_mul (f_div d r) r)"
    using assms by (rule sculpt_apply_hardness_zero)
  have c: "0 < h \<and> h < 1 \<and> float32_round h = h \<longrightarrow>
        sculpt_apply_hardness r h d =
          (if d < h * r then 0 else f_mul (f_div (f_sub (f_div d r) h) (f_sub 1 h)) r)"
    using assms by (simp add: sculpt_apply_hardness_between)
  have d: "0 < h \<and> h < 1 \<and> float32_round h = h \<longrightarrow>
      apply_hardness_to_distances r h ds =
          map (\<lambda>d. if d < f_mul h r then 0
                    else f_mul (f_mul (f_sub (f_mul d (f_div 1 r)) h) (f_div 1 (f_sub 1 h))) r) ds"
    by (simp add: apply_hardness_to_distances_def rcp_def Let_def)
  have e: "sculpt_apply_hardness 2 (1 / 2) 1 = 0"
    by (simp add: sculpt_apply_hardness_def Let_def hardness_round)
  have f: "apply_hardness_to_distances 2 (1 / 2) [1] = [0]"
    by (simp add: apply_hardness_to_distances_def rcp_def Let_def hardness_round)
  have g: "apply_hardness_to_distances r 1 ds = map (\<lambda>_. 0) ds"
    by (simp add: apply_hardness_to_distances_def)
  have i: "float32_round d = d \<and> float32_round r = r \<longrightarrow>
        sculpt_apply_hardness r 1 d = (if d < r then 0 else r)"
    using assms by (simp add: sculpt_apply_hardness_one)
  show ?thesis using a b c d e f g i by blast
qed

lemma float32_round_examples:
  "float32_round (1 / 4) = 1 / 4" "float32_round 1 = 1" "float32_round 2 = 2"
proof -
  show "float32_round (1 / 4) = 1 / 4"
    by (rule float32_round_eqI[where e = "- 2" and k = 8388608]) (simp_all add: pow2_def)
  show "float32_round 1 = 1" by (rule float32_round_1)
  show "float32_round 2 = 2"
    by (rule float32_round_eqI[where e = 1 and k = 8388608]) (simp_all add: pow2_def)
qed

theorem hardness_remap_witness:
  "(0::real) < 2 \<and> (0::real) < 1 / 4 \<and> (1::real) / 4 < 1 \<and> float32_round (1 / 4) = 1 / 4
   \<and> float32_round 1 = 1 \<and> float32_round 2 = 2
   \<and> sculpt_apply_hardness 2 0 3 = 3
   \<and> sculpt_apply_hardness 2 (1 / 4) (1 / 4) = 0
   \<and> sculpt_apply_hardness 2 (1 / 4) (5 / 4) = 1
   \<and> apply_hardness_to_distances 2 (1 / 4) [1 / 4, 5 / 4] = [0, 1]
   \<and> sculpt_apply_hardness 2 1 1 = 0 \<and> sculpt_apply_hardness 2 1 2 = 2"
proof -
  have r: "(0::real) < 2" by simp
  have h: "(0::real) < 1 / 4 \<and> (1::real) / 4 < 1 \<and> float32_round (1 / 4) = 1 / 4"
    by (simp add: float32_round_examples)
  have f1: "float32_round 1 = 1 \<and> float32_round 2 = 2" by (simp add: float32_round_examples)
  have f2: "float32_round 2 = 2 \<and> float32_round 2 = 2" by (simp add: float32_round_examples)
  from hardness_remap[where r = 2 and d = 3, OF r]
  have 1: "sculpt_apply_hardness 2 0 3 = (if (3::real) < 0 then 0 else f_mul (f_div 3 2) 2)" by blast
  from hardness_remap[where r = 2 and h = "1 / 4" and d = "1 / 4", OF r] h
  have 2: "sculpt_apply_hardness 2 (1 / 4) (1 / 4) =
      (if (1 / 4 :: real) < 1 / 4 * 2 then 0
       else f_mul (f_div (f_sub (f_div (1 / 4) 2) (1 / 4)) (f_sub 1 (1 / 4))) 2)" by blast
  from hardness_remap[where r = 2 and h = "1 / 4" and d = "5 / 4" and ds = "[1 / 4, 5 / 4]", OF r] h
  have 3: "sculpt_apply_hardness 2 (1 / 4) (5 / 4) =
      (if (5 / 4 :: real) < 1 / 4 * 2 then 0
       else f_mul (f_div (f_sub (f_div (5 / 4) 2) (1 / 4)) (f_sub 1 (1 / 4))) 2)"
    and 4: "apply_hardness_to_distances 2 (1 / 4) [1 / 4, 5 / 4] =
          map (\<lambda>d. if d < f_mul (1 / 4) 2 then 0
                    else f_mul (f_mul (f_sub (f_mul d (f_div 1 2)) (1 / 4)) (f_div 1 (f_sub 1 (1 / 4)))) 2)
              [1 / 4, 5 / 4]"
    by blast+
  from hardness_remap[where r = 2 and d = 1, OF r] f1
  have 5: "sculpt_apply_hardness 2 1 1 = (if (1::real) < 2 then 0 else 2)" by blast
  from hardness_remap[where r = 2 and d = 2, OF r] f2
  have 6: "sculpt_apply_hardness 2 1 2 = (if (2::real) < 2 then 0 else 2)" by blast
  show ?thesis using 1 2 3 4 5 6 r h f1 by (simp add: hardness_round)
qed

section \<open>Factor stages, vertex by vertex\<close>

lemma fold_update_each:
  "fold (\<lambda>i fs. fs[i := F i (fs ! i)]) [0..<n] fs =
     map (\<lambda>i. if i < n then F i (fs ! i) else fs ! i) [0..<length fs]"
proof (induction n)
  case 0
  show ?case by (simp add: map_nth)
next
  case (Suc n)
  let ?f = "\<lambda>i fs. fs[i := F i (fs ! i)]"
  let ?m = "map (\<lambda>i. if i < n then F i (fs ! i) else fs ! i) [0..<length fs]"
  have "fold ?f [0..<Suc n] fs = ?f n (fold ?f [0..<n] fs)" by simp
  also have "\<dots> = ?f n ?m" by (simp only: Suc)
  also have "\<dots> = map (\<lambda>i. if i < Suc n then F i (fs ! i) else fs ! i) [0..<length fs]"
  proof (rule nth_equalityI)
    show "length (?f n ?m) = length (map (\<lambda>i. if i < Suc n then F i (fs ! i) else fs ! i) [0..<length fs])"
      by simp
  next
    fix i
    assume "i < length (?f n ?m)"
    then have i: "i < length fs" by simp
    show "?f n ?m ! i = map (\<lambda>i. if i < Suc n then F i (fs ! i) else fs ! i) [0..<length fs] ! i"
    proof (cases "i = n")
      case True
      then show ?thesis using i by simp
    next
      case False
      then show ?thesis using i by (auto simp: less_Suc_eq)
    qed
  qed
  finally show ?case .
qed

lemma fold_update_each_nth:
  "i < length fs \<Longrightarrow>
   fold (\<lambda>i fs. fs[i := F i (fs ! i)]) [0..<n] fs ! i = (if i < n then F i (fs ! i) else fs ! i)"
  by (simp add: fold_update_each)

lemma filter_region_clip_factors_nth:
  assumes "ss_cache ss = Some c" "enabled (vc_v3d c) (vc_rv3d c)" "length factors = length verts"
    "i < length verts"
  shows "filter_region_clip_factors enabled clip ss positions verts factors ! i =
     (if clip (vc_rv3d c)
           (if pass_radial_symmetry_pass c \<noteq> 0
            then transform_point (pass_symm_rot_mat_inv c)
                   (symmetry_flip (positions ! (verts ! i)) (pass_mirror_symmetry_pass c))
            else symmetry_flip (positions ! (verts ! i)) (pass_mirror_symmetry_pass c)) True
      then 0 else factors ! i)"
  using assms by (simp add: filter_region_clip_factors_def Let_def fold_set_zero_nth)

lemma filter_region_clip_factors_le:
  assumes "length factors = length verts" "i < length verts" "0 \<le> factors ! i"
  shows "0 \<le> filter_region_clip_factors enabled clip ss positions verts factors ! i \<and>
         filter_region_clip_factors enabled clip ss positions verts factors ! i \<le> factors ! i"
  using assms by (simp add: filter_region_clip_factors_def Let_def fold_set_zero_nth)

lemma filter_region_clip_factors_length:
  "length (filter_region_clip_factors enabled clip ss positions verts factors) = length factors"
  by (simp add: filter_region_clip_factors_def Let_def fold_set_zero_length)

lemma filter_distances_with_radius_length:
  "length (filter_distances_with_radius r distances factors) = length factors"
  by (simp add: filter_distances_with_radius_def fold_set_zero_length)

lemma calc_front_face_nth:
  "i < length factors \<Longrightarrow> length factors = length verts \<Longrightarrow>
   calc_front_face view_normal vert_normals verts factors ! i =
     f_mul (factors ! i) (max (dot view_normal (vert_normals ! (verts ! i))) 0)"
  by (simp add: calc_front_face_def Let_def
        fold_update_each_nth[where F = "\<lambda>i old. f_mul old (max (dot view_normal (vert_normals ! (verts ! i))) 0)"])

lemma calc_front_face_length:
  "length (calc_front_face view_normal vert_normals verts factors) = length factors"
  by (simp add: calc_front_face_def Let_def
        fold_update_each[where F = "\<lambda>i old. f_mul old (max (dot view_normal (vert_normals ! (verts ! i))) 0)"])

lemma fill_factor_nth:
  assumes "i < length r_factors" "length r_factors = length verts"
  shows "fill_factor_from_hide_and_mask mesh verts r_factors ! i =
     (if (case hide_vert mesh of Some h \<Rightarrow> h ! (verts ! i) | None \<Rightarrow> False) then 0
      else case sculpt_mask mesh of Some m \<Rightarrow> f_sub 1 (m ! (verts ! i)) | None \<Rightarrow> 1)"
  using assms
  by (auto simp: fill_factor_from_hide_and_mask_def Let_def fold_set_zero_nth
        fold_update_each_nth[where F = "\<lambda>i old. f_sub 1 (m ! (verts ! i))" for m]
        fold_update_each[where F = "\<lambda>i old. f_sub 1 (m ! (verts ! i))" for m]
        split: option.splits)

lemma fill_factor_length:
  "length (fill_factor_from_hide_and_mask mesh verts r_factors) = length r_factors"
  by (auto simp: fill_factor_from_hide_and_mask_def Let_def fold_set_zero_length
        fold_update_each[where F = "\<lambda>i old. f_sub 1 (m ! (verts ! i))" for m]
        split: option.splits)

lemma seed_representable:
  assumes "i < length r_factors" "length r_factors = length verts"
    and "case sculpt_mask mesh of Some m \<Rightarrow> m ! (verts ! i) \<le> 1 | None \<Rightarrow> True"
  shows "0 \<le> fill_factor_from_hide_and_mask mesh verts r_factors ! i"
    and "float32_round (fill_factor_from_hide_and_mask mesh verts r_factors ! i)
           = fill_factor_from_hide_and_mask mesh verts r_factors ! i"
  using assms
  by (auto simp: fill_factor_nth f_sub_def float32_round_0 float32_round_1 float32_round_nonneg
        float32_round_idem split: option.splits)

lemma front_face_le:
  assumes "float32_round f = f" "0 \<le> f" "0 \<le> c" "c \<le> 1"
  shows "0 \<le> f_mul f c \<and> f_mul f c \<le> f"
proof -
  have p: "0 \<le> f * c" using assms(2,3) by simp
  have "f * c \<le> f" using assms(2,4) by (simp add: mult_left_le)
  then have "float32_round (f * c) \<le> float32_round f" using p by (intro float32_round_mono)
  then show ?thesis using p assms(1) by (simp add: f_mul_def float32_round_nonneg)
qed

text \<open>The roundings met by the examples below, one operation each.\<close>

lemma factor_round_1: "f_sub 1 2 = - 1"
  unfolding f_sub_def
  by (rule float32_round_eqI[where e = 0 and k = "- 8388608"]) (simp_all add: pow2_def)

lemma factor_round_2: "f_mul 0 0 = 0"
  by (simp add: f_mul_def float32_round_0)

lemma factor_round_3: "f_mul 1 1 = 1"
  unfolding f_mul_def
  by (rule float32_round_eqI[where e = 0 and k = 8388608]) (simp_all add: pow2_def)

lemma factor_round_4: "f_add 0 0 = 0"
  by (simp add: f_add_def float32_round_0)

lemma factor_round_5: "f_add 0 1 = 1"
  unfolding f_add_def
  by (rule float32_round_eqI[where e = 0 and k = 8388608]) (simp_all add: pow2_def)

lemma factor_round_6: "f_mul (- 1) 1 = - 1"
  unfolding f_mul_def
  by (rule float32_round_eqI[where e = 0 and k = "- 8388608"]) (simp_all add: pow2_def)

lemma factor_round_7: "f_div 1 (4448731 / 1048576) = 988607 / 4194304"
  unfolding f_div_def
  by (rule float32_round_eqI[where e = "- 3" and k = 15817712]) (simp_all add: pow2_def)

lemma factor_round_8: "f_div 4 (4448731 / 1048576) = 988607 / 1048576"
  unfolding f_div_def
  by (rule float32_round_eqI[where e = "- 1" and k = 15817712]) (simp_all add: pow2_def)

lemma factor_round_9: "f_sub 1 (1 / 2) = 1 / 2"
  unfolding f_sub_def
  by (rule float32_round_eqI[where e = "- 1" and k = 8388608]) (simp_all add: pow2_def)

lemma factor_round_10: "f_mul (988607 / 4194304) (988607 / 4194304) = 14913083 / 268435456"
  unfolding f_mul_def
  by (rule float32_round_eqI[where e = "- 5" and k = 14913083]) (simp_all add: pow2_def)

lemma factor_round_11: "f_mul (988607 / 1048576) (988607 / 1048576) = 14913083 / 16777216"
  unfolding f_mul_def
  by (rule float32_round_eqI[where e = "- 1" and k = 14913083]) (simp_all add: pow2_def)

lemma factor_round_12: "f_add (14913083 / 268435456) (14913083 / 16777216) = 15845151 / 16777216"
  unfolding f_add_def
  by (rule float32_round_eqI[where e = "- 1" and k = 15845151]) (simp_all add: pow2_def)

lemma factor_round_13: "f_add (15845151 / 16777216) (14913083 / 268435456) = 8388609 / 8388608"
  unfolding f_add_def
  by (rule float32_round_eqI[where e = 0 and k = 8388609]) (simp_all add: pow2_def)

lemma factor_round_14: "f_mul (1 / 2) (8388609 / 8388608) = 8388609 / 16777216"
  unfolding f_mul_def
  by (rule float32_round_eqI[where e = "- 1" and k = 8388609]) (simp_all add: pow2_def)

lemma factor_round_15: "f_mul 0 (1 / 2) = 0"
  by (simp add: f_mul_def float32_round_0)

lemma factor_round_16: "f_mul 1 (3 / 4) = 3 / 4"
  unfolding f_mul_def
  by (rule float32_round_eqI[where e = "- 1" and k = 12582912]) (simp_all add: pow2_def)

lemma factor_round_17: "f_add 0 (3 / 4) = 3 / 4"
  unfolding f_add_def
  by (rule float32_round_eqI[where e = "- 1" and k = 12582912]) (simp_all add: pow2_def)

lemma factor_round_18: "f_mul (1 / 2) (3 / 4) = 3 / 8"
  unfolding f_mul_def
  by (rule float32_round_eqI[where e = "- 2" and k = 12582912]) (simp_all add: pow2_def)

lemmas factor_round = factor_round_1 factor_round_2 factor_round_3 factor_round_4 factor_round_5 factor_round_6 factor_round_7 factor_round_8 factor_round_9 factor_round_10 factor_round_11 factor_round_12 factor_round_13 factor_round_14 factor_round_15 factor_round_16 factor_round_17 factor_round_18

lemma sqrt_18_rounded: "float32_round (sqrt 18) = 4448731 / 1048576"
proof -
  have "(17794923 / 4194304 :: real)\<^sup>2 < 18" by (simp add: power2_eq_square)
  then have lo: "17794923 / 4194304 < sqrt 18" by (rule real_less_rsqrt)
  have "(18::real) < (17794925 / 4194304)\<^sup>2" by (simp add: power2_eq_square)
  then have hi: "sqrt 18 < 17794925 / 4194304" by (intro real_less_lsqrt) simp_all
  show ?thesis
  proof (rule float32_round_eqI[where e = 2 and k = 8897462])
    show "- 126 \<le> (2::int)" by simp
    show "pow2 2 \<le> \<bar>sqrt 18\<bar>" using lo by (simp add: pow2_def)
    show "\<bar>sqrt 18\<bar> < pow2 (2 + 1)" using hi by (simp add: pow2_def)
    show "real_of_int 8897462 - 1 / 2 < sqrt 18 / pow2 (2 - 23)" using lo by (simp add: pow2_def)
    show "sqrt 18 / pow2 (2 - 23) < real_of_int 8897462 + 1 / 2" using hi by (simp add: pow2_def)
    show "4448731 / 1048576 = real_of_int 8897462 * pow2 (2 - 23)" by (simp add: pow2_def)
  qed
qed

text \<open>
  Claim C8, as stated, fails. A mask value of 2 gives the seed \<open>1 - 2 = -1\<close>, the front-face
  stage keeps it, and the radius cutoff raises it to 0. And normals of unit length in single
  precision can have a computed dot product above 1: dividing (1,4,1) by its rounded length
  \<open>fl(sqrt 18)\<close> gives \<open>n = (988607 / 4194304, 988607 / 1048576, 988607 / 4194304)\<close>,
  the computed \<open>dot n n\<close> is \<open>1 + 2\<^sup>-\<^sup>2\<^sup>3\<close>, and the front-face stage takes the
  seed \<open>1/2\<close> (mask \<open>1/2\<close>) to \<open>1/2 + 2\<^sup>-\<^sup>2\<^sup>4\<close>.
\<close>

theorem factor_stages_can_increase:
  "fill_factor_from_hide_and_mask \<lparr>sculpt_mask = Some [2], hide_vert = None\<rparr> [0] [1] = [- 1]
   \<and> calc_front_face (0, 0, 1) [(0, 0, 1)] [0] [- 1] = [- 1]
   \<and> filter_distances_with_radius 1 [2] [- 1] = [0]
   \<and> float32_round (sqrt 18) = 4448731 / 1048576
   \<and> f_div 1 (4448731 / 1048576) = 988607 / 4194304
   \<and> f_div 4 (4448731 / 1048576) = 988607 / 1048576
   \<and> dot (988607 / 4194304, 988607 / 1048576, 988607 / 4194304)
          (988607 / 4194304, 988607 / 1048576, 988607 / 4194304) = 8388609 / 8388608
   \<and> fill_factor_from_hide_and_mask \<lparr>sculpt_mask = Some [1 / 2], hide_vert = None\<rparr> [0] [1] = [1 / 2]
   \<and> calc_front_face (988607 / 4194304, 988607 / 1048576, 988607 / 4194304)
        [(988607 / 4194304, 988607 / 1048576, 988607 / 4194304)] [0] [1 / 2] = [8388609 / 16777216]
   \<and> (1 / 2 :: real) < 8388609 / 16777216"
proof -
  have a: "fill_factor_from_hide_and_mask \<lparr>sculpt_mask = Some [2], hide_vert = None\<rparr> [0] [1] = [- 1]"
    by (simp add: fill_factor_from_hide_and_mask_def factor_round)
  have b: "calc_front_face (0, 0, 1) [(0, 0, 1)] [0] [- 1] = [- 1]"
    by (simp add: calc_front_face_def factor_round)
  have c: "filter_distances_with_radius 1 [2] [- 1] = [0]"
    by (simp add: filter_distances_with_radius_def)
  have d: "dot (988607 / 4194304, 988607 / 1048576, 988607 / 4194304)
          (988607 / 4194304, 988607 / 1048576, 988607 / 4194304) = 8388609 / 8388608"
    by (simp add: factor_round)
  have e: "fill_factor_from_hide_and_mask \<lparr>sculpt_mask = Some [1 / 2], hide_vert = None\<rparr> [0] [1] = [1 / 2]"
    by (simp add: fill_factor_from_hide_and_mask_def factor_round)
  have f: "calc_front_face (988607 / 4194304, 988607 / 1048576, 988607 / 4194304)
        [(988607 / 4194304, 988607 / 1048576, 988607 / 4194304)] [0] [1 / 2] = [8388609 / 16777216]"
    by (simp add: calc_front_face_def factor_round)
  have g: "(1 / 2 :: real) < 8388609 / 16777216" by simp
  show ?thesis using a b c d e f g sqrt_18_rounded factor_round by (simp only: simp_thms)
qed

text \<open>
  Claim C8, amended. For a vertex whose mask value is at most 1 and whose computed dot product
  of view normal and vertex normal is at most 1, the factor after the seed stage is
  non-negative, and the front-face stage, the radius cutoff and the region-clip stage applied
  after it each leave a factor that is at most the one before: the front-face stage multiplies
  by \<open>max(dot, 0)\<close>, which lies in [0,1], and rounds the product to single precision, and the
  other two keep the factor or set it to 0. The result never exceeds the seed value.
\<close>

theorem factor_stages_do_not_increase:
  assumes len: "length r_factors = length verts" "length distances = length verts"
    and i: "i < length verts"
    and mask: "case sculpt_mask mesh of Some m \<Rightarrow> m ! (verts ! i) \<le> 1 | None \<Rightarrow> True"
    and dot_le: "dot view_normal (vert_normals ! (verts ! i)) \<le> 1"
  shows "let seed = fill_factor_from_hide_and_mask mesh verts r_factors;
             f1 = calc_front_face view_normal vert_normals verts seed;
             f2 = filter_distances_with_radius r distances f1;
             f3 = filter_region_clip_factors enabled clip ss positions verts f2
         in 0 \<le> seed ! i \<and> f1 ! i \<le> seed ! i \<and> f2 ! i \<le> f1 ! i \<and> f3 ! i \<le> f2 ! i \<and> f3 ! i \<le> seed ! i
            \<and> f1 ! i = f_mul (seed ! i) (max (dot view_normal (vert_normals ! (verts ! i))) 0)
            \<and> 0 \<le> max (dot view_normal (vert_normals ! (verts ! i))) 0
            \<and> max (dot view_normal (vert_normals ! (verts ! i))) 0 \<le> 1
            \<and> (f2 ! i = f1 ! i \<or> f2 ! i = 0) \<and> (f3 ! i = f2 ! i \<or> f3 ! i = 0)"
proof -
  let ?seed = "fill_factor_from_hide_and_mask mesh verts r_factors"
  let ?f1 = "calc_front_face view_normal vert_normals verts ?seed"
  let ?f2 = "filter_distances_with_radius r distances ?f1"
  let ?f3 = "filter_region_clip_factors enabled clip ss positions verts ?f2"
  have l0: "length ?seed = length verts" using len by (simp add: fill_factor_length)
  have l1: "length ?f1 = length verts" using l0 by (simp add: calc_front_face_length)
  have l2: "length ?f2 = length verts" using l1 by (simp add: filter_distances_with_radius_length)
  have ir: "i < length r_factors" using i len by simp
  have s: "0 \<le> ?seed ! i" using ir len(1) mask by (rule seed_representable(1))
  have sr: "float32_round (?seed ! i) = ?seed ! i" using ir len(1) mask by (rule seed_representable(2))
  have m: "0 \<le> max (dot view_normal (vert_normals ! (verts ! i))) 0"
    "max (dot view_normal (vert_normals ! (verts ! i))) 0 \<le> 1"
    using dot_le by simp_all
  have e1: "?f1 ! i = f_mul (?seed ! i) (max (dot view_normal (vert_normals ! (verts ! i))) 0)"
    using i l0 by (simp add: calc_front_face_nth)
  have f1: "0 \<le> ?f1 ! i \<and> ?f1 ! i \<le> ?seed ! i"
    unfolding e1 using sr s m by (rule front_face_le)
  have e2: "?f2 ! i = (if distances ! i > r then 0 else ?f1 ! i)"
    using i l1 len by (simp add: filter_distances_with_radius_nth)
  have f2: "0 \<le> ?f2 ! i \<and> ?f2 ! i \<le> ?f1 ! i" using e2 f1 by simp
  have f3: "0 \<le> ?f3 ! i \<and> ?f3 ! i \<le> ?f2 ! i"
    using l2 i f2 by (simp add: filter_region_clip_factors_le)
  have e3: "?f3 ! i = ?f2 ! i \<or> ?f3 ! i = 0"
    using l2 i by (simp add: filter_region_clip_factors_def Let_def fold_set_zero_nth)
  have e2': "?f2 ! i = ?f1 ! i \<or> ?f2 ! i = 0" using e2 by simp
  have "?f3 ! i \<le> ?seed ! i" using f1 f2 f3 by linarith
  then show ?thesis unfolding Let_def using s f1 f2 f3 e1 e2' e3 m by blast
qed


theorem factor_stages_do_not_increase_witness:
  "dot (0, 0, 1) ([(0, 1 / 2, 3 / 4)] ! ([0] ! 0)) \<le> 1
   \<and> [1 / 2] ! ([0] ! 0) \<le> (1::real)
   \<and> fill_factor_from_hide_and_mask \<lparr>sculpt_mask = Some [1 / 2], hide_vert = None\<rparr> [0] [7] ! 0 = 1 / 2
   \<and> filter_region_clip_factors (\<lambda>(v::unit) (rv::unit). True) (\<lambda>rv p l. fst p < 0)
         \<lparr>ss_cache = None, ss_v3d = (), ss_rv3d = ()\<rparr> [(1, 0, 0)] [0]
         (filter_distances_with_radius 2 [1]
            (calc_front_face (0, 0, 1) [(0, 1 / 2, 3 / 4)] [0]
               (fill_factor_from_hide_and_mask \<lparr>sculpt_mask = Some [1 / 2], hide_vert = None\<rparr> [0] [7]))) ! 0
       \<le> 1 / 2"
proof -
  let ?mesh = "\<lparr>sculpt_mask = Some [1 / 2], hide_vert = None\<rparr>"
  have h1: "length [7::real] = length [0::nat]" "length [1::real] = length [0::nat]" "0 < length [0::nat]"
    by simp_all
  have h2: "case sculpt_mask ?mesh of Some m \<Rightarrow> m ! ([0] ! 0) \<le> 1 | None \<Rightarrow> True" by simp
  have h3: "dot (0, 0, 1) ([(0, 1 / 2, 3 / 4)] ! ([0] ! 0)) \<le> 1" by (simp add: factor_round)
  have s: "fill_factor_from_hide_and_mask ?mesh [0] [7] ! 0 = 1 / 2"
    by (simp add: fill_factor_from_hide_and_mask_def factor_round)
  from factor_stages_do_not_increase[OF h1 h2 h3, where positions = "[(1, 0, 0)]"
         and clip = "(\<lambda>rv p l. fst p < 0)" and ss = "\<lparr>ss_cache = None, ss_v3d = (), ss_rv3d = ()\<rparr>"
         and enabled = "\<lambda>(v::unit) (rv::unit). True" and r = 2]
  have "filter_region_clip_factors (\<lambda>(v::unit) (rv::unit). True) (\<lambda>rv p l. fst p < 0)
         \<lparr>ss_cache = None, ss_v3d = (), ss_rv3d = ()\<rparr> [(1, 0, 0)] [0]
         (filter_distances_with_radius 2 [1]
            (calc_front_face (0, 0, 1) [(0, 1 / 2, 3 / 4)] [0]
               (fill_factor_from_hide_and_mask ?mesh [0] [7]))) ! 0
       \<le> fill_factor_from_hide_and_mask ?mesh [0] [7] ! 0"
    unfolding Let_def by blast
  then show ?thesis using h3 s by simp
qed

section \<open>The clip test sees the mirrored point\<close>

text \<open>
  Claim C4. Whenever the viewport clip test is evaluated for a point, by
  \<open>sculpt_brush_test_clipping\<close> or by \<open>filter_region_clip_factors\<close>, its argument is
  the point reflected through the current mirror pass, and rotated by the inverse radial
  rotation when the radial pass is not 0. With mirror bitmask 1 and no radial pass, the vertex
  (1,0,0) is tested at (-1,0,0).
\<close>

theorem clip_test_uses_mirrored_point:
  "(clip_rv3d test = Some rv \<longrightarrow>
      sculpt_brush_test_clipping clip test co =
        clip rv (if test_radial_symmetry_pass test \<noteq> 0
                 then transform_point (test_symm_rot_mat_inv test)
                        (symmetry_flip co (test_mirror_symmetry_pass test))
                 else symmetry_flip co (test_mirror_symmetry_pass test)) True)
   \<and> (clip_rv3d test = Some rv \<and> test_mirror_symmetry_pass test = 1 \<and> test_radial_symmetry_pass test = 0 \<longrightarrow>
      sculpt_brush_test_clipping clip test (1, 0, 0) = clip rv (- 1, 0, 0) True)
   \<and> (ss_cache ss = Some c \<and> enabled (vc_v3d c) (vc_rv3d c) \<and> length factors = length verts \<and>
        i < length verts \<longrightarrow>
      filter_region_clip_factors enabled clip ss positions verts factors ! i =
        (if clip (vc_rv3d c)
              (if pass_radial_symmetry_pass c \<noteq> 0
               then transform_point (pass_symm_rot_mat_inv c)
                      (symmetry_flip (positions ! (verts ! i)) (pass_mirror_symmetry_pass c))
               else symmetry_flip (positions ! (verts ! i)) (pass_mirror_symmetry_pass c)) True
         then 0 else factors ! i))"
proof (intro conjI impI)
  assume "clip_rv3d test = Some rv"
  then show "sculpt_brush_test_clipping clip test co =
        clip rv (if test_radial_symmetry_pass test \<noteq> 0
                 then transform_point (test_symm_rot_mat_inv test)
                        (symmetry_flip co (test_mirror_symmetry_pass test))
                 else symmetry_flip co (test_mirror_symmetry_pass test)) True"
    by (simp add: sculpt_brush_test_clipping_def Let_def)
next
  assume "clip_rv3d test = Some rv \<and> test_mirror_symmetry_pass test = 1 \<and> test_radial_symmetry_pass test = 0"
  then show "sculpt_brush_test_clipping clip test (1, 0, 0) = clip rv (- 1, 0, 0) True"
    by (simp add: sculpt_brush_test_clipping_def Let_def)
next
  assume "ss_cache ss = Some c \<and> enabled (vc_v3d c) (vc_rv3d c) \<and> length factors = length verts \<and>
        i < length verts"
  then show "filter_region_clip_factors enabled clip ss positions verts factors ! i =
        (if clip (vc_rv3d c)
              (if pass_radial_symmetry_pass c \<noteq> 0
               then transform_point (pass_symm_rot_mat_inv c)
                      (symmetry_flip (positions ! (verts ! i)) (pass_mirror_symmetry_pass c))
               else symmetry_flip (positions ! (verts ! i)) (pass_mirror_symmetry_pass c)) True
         then 0 else factors ! i)"
    using filter_region_clip_factors_nth by blast
qed

theorem clip_test_uses_mirrored_point_witness:
  "\<not> (\<lambda>(rv::unit) p (l::bool). fst p < (0::real)) () (1, 0, 0) True
   \<and> sculpt_brush_test_clipping (\<lambda>(rv::unit) p l. fst p < 0)
        \<lparr>radius_squared = 4, test_radius = 2, test_location = (0, 0, 0), test_dist = 0,
         test_mirror_symmetry_pass = 1, test_radial_symmetry_pass = 0,
         test_symm_rot_mat_inv = identity_m4, clip_rv3d = Some ()\<rparr> (1, 0, 0)
   \<and> filter_region_clip_factors (\<lambda>(v::unit) (rv::unit). True) (\<lambda>rv p l. fst p < 0)
        \<lparr>ss_cache = Some \<lparr>vc_v3d = (), vc_rv3d = (), pass_mirror_symmetry_pass = 1,
                          pass_radial_symmetry_pass = 0, pass_symm_rot_mat_inv = identity_m4\<rparr>,
         ss_v3d = (), ss_rv3d = ()\<rparr> [(- 1, 0, 0), (1, 0, 0)] [1, 0] [1 / 2, 1 / 3]
        = [0, 1 / 3]"
proof -
  let ?clip = "\<lambda>(rv::unit) p (l::bool). fst p < (0::real)"
  let ?test = "\<lparr>radius_squared = 4, test_radius = 2, test_location = (0, 0, 0), test_dist = 0,
         test_mirror_symmetry_pass = 1, test_radial_symmetry_pass = 0,
         test_symm_rot_mat_inv = identity_m4, clip_rv3d = Some ()\<rparr>"
  let ?c = "\<lparr>vc_v3d = (), vc_rv3d = (), pass_mirror_symmetry_pass = 1,
                          pass_radial_symmetry_pass = 0, pass_symm_rot_mat_inv = identity_m4\<rparr>"
  let ?ss = "\<lparr>ss_cache = Some ?c, ss_v3d = (), ss_rv3d = ()\<rparr>"
  let ?en = "\<lambda>(v::unit) (rv::unit). True"
  let ?res = "filter_region_clip_factors ?en ?clip ?ss [(- 1, 0, 0), (1, 0, 0)] [1, 0] [1 / 2, 1 / 3]"
  have t: "clip_rv3d ?test = Some () \<and> test_mirror_symmetry_pass ?test = 1 \<and> test_radial_symmetry_pass ?test = 0"
    by simp
  note inst = clip_test_uses_mirrored_point[where test = ?test and rv = "()" and clip = ?clip
      and co = "(1, 0, 0)" and ss = ?ss and c = ?c and enabled = ?en and factors = "[1 / 2, 1 / 3]"
      and verts = "[1, 0]" and positions = "[(- 1, 0, 0), (1, 0, 0)]"]
  have 1: "sculpt_brush_test_clipping ?clip ?test (1, 0, 0) = ?clip () (- 1, 0, 0) True"
    using inst[where i = 0] by simp
  have 2: "?res ! 0 = 0"
    using inst[where i = 0] by simp
  have 3: "?res ! 1 = 1 / 3"
    using inst[where i = 1] by (simp add: identity_m4_def)
  have l: "length ?res = 2" by (simp add: filter_region_clip_factors_length)
  have "?res = [0, 1 / 3]"
    using l 2 3 by (auto simp: list_eq_iff_nth_eq less_Suc_eq numeral_2_eq_2)
  then show ?thesis using 1 by simp
qed

section \<open>Interior neighbours of boundary vertices\<close>

lemma append_non_duplicates_distinct: "distinct xs \<Longrightarrow> distinct (append_non_duplicates xs x)"
  by (simp add: append_non_duplicates_def)

lemma fold_preserves:
  assumes "\<And>x s. P s \<Longrightarrow> P (f x s)" "P s"
  shows "P (fold f xs s)"
  using assms(2) by (induction xs arbitrary: s) (simp_all add: assms(1))

lemma vert_neighbors_get_mesh_distinct:
  "distinct (vert_neighbors_get_mesh face_find_adjacent_verts vert_to_face hide_poly vert)"
  unfolding vert_neighbors_get_mesh_def
  by (rule fold_preserves) (simp_all add: Let_def append_non_duplicates_distinct)

text \<open>
  Claim C5. For the plain mesh the collected neighbours of a vertex are free of duplicates. A
  boundary vertex with exactly 2 neighbours gets the empty list; any other boundary vertex
  gets its neighbours with the non-boundary ones removed; a non-boundary vertex gets all its
  neighbours. The dynamic-topology mesh does the same on the vector of neighbours it collects
  (one entry for each side of each loop around the vertex), where "exactly 2" is the size of
  that vector.
\<close>

theorem interior_neighbors_of_boundary_vertices:
  "(i < length verts \<longrightarrow>
      (let v = verts ! i;
           ns = vert_neighbors_get_mesh face_find_adjacent_verts vert_to_face hide_poly v;
           res = calc_vert_neighbors_interior face_find_adjacent_verts vert_to_face boundary_verts hide_poly verts ! i
       in distinct ns \<and>
          (boundary_verts ! v \<and> card (set ns) = 2 \<longrightarrow> res = []) \<and>
          (boundary_verts ! v \<and> card (set ns) \<noteq> 2 \<longrightarrow>
             res = filter (\<lambda>u. boundary_verts ! u) ns \<and> set res = {u \<in> set ns. boundary_verts ! u}) \<and>
          (\<not> boundary_verts ! v \<longrightarrow> res = ns)))
   \<and> (let ns = vert_neighbors_get_bmesh loops_of_vert vert [];
            res = vert_neighbors_get_interior_bmesh loops_of_vert BM_vert_is_boundary vert []
        in (BM_vert_is_boundary vert \<and> length ns = 2 \<longrightarrow> res = []) \<and>
           (BM_vert_is_boundary vert \<and> length ns \<noteq> 2 \<longrightarrow>
              res = filter BM_vert_is_boundary ns \<and> set res = {u \<in> set ns. BM_vert_is_boundary u}) \<and>
           (\<not> BM_vert_is_boundary vert \<longrightarrow> res = ns))
   \<and> (j < length bm_verts \<longrightarrow>
        calc_vert_neighbors_interior_bmesh loops_of_vert BM_vert_is_boundary bm_verts ! j =
          vert_neighbors_get_interior_bmesh loops_of_vert BM_vert_is_boundary (bm_verts ! j) [])"
proof (intro conjI impI)
  assume i: "i < length verts"
  let ?ns = "vert_neighbors_get_mesh face_find_adjacent_verts vert_to_face hide_poly (verts ! i)"
  have d: "distinct ?ns" by (rule vert_neighbors_get_mesh_distinct)
  then have c: "card (set ?ns) = length ?ns" by (rule distinct_card)
  show "let v = verts ! i;
           ns = vert_neighbors_get_mesh face_find_adjacent_verts vert_to_face hide_poly v;
           res = calc_vert_neighbors_interior face_find_adjacent_verts vert_to_face boundary_verts hide_poly verts ! i
       in distinct ns \<and>
          (boundary_verts ! v \<and> card (set ns) = 2 \<longrightarrow> res = []) \<and>
          (boundary_verts ! v \<and> card (set ns) \<noteq> 2 \<longrightarrow>
             res = filter (\<lambda>u. boundary_verts ! u) ns \<and> set res = {u \<in> set ns. boundary_verts ! u}) \<and>
          (\<not> boundary_verts ! v \<longrightarrow> res = ns)"
    using i d c by (simp add: Let_def calc_vert_neighbors_interior_def)
next
  show "let ns = vert_neighbors_get_bmesh loops_of_vert vert [];
            res = vert_neighbors_get_interior_bmesh loops_of_vert BM_vert_is_boundary vert []
        in (BM_vert_is_boundary vert \<and> length ns = 2 \<longrightarrow> res = []) \<and>
           (BM_vert_is_boundary vert \<and> length ns \<noteq> 2 \<longrightarrow>
              res = filter BM_vert_is_boundary ns \<and> set res = {u \<in> set ns. BM_vert_is_boundary u}) \<and>
           (\<not> BM_vert_is_boundary vert \<longrightarrow> res = ns)"
    by (simp add: Let_def vert_neighbors_get_interior_bmesh_def vert_neighbors_get_bmesh_def)
next
  assume "j < length bm_verts"
  then show "calc_vert_neighbors_interior_bmesh loops_of_vert BM_vert_is_boundary bm_verts ! j =
          vert_neighbors_get_interior_bmesh loops_of_vert BM_vert_is_boundary (bm_verts ! j) []"
    by (simp add: calc_vert_neighbors_interior_bmesh_def)
qed


theorem interior_neighbors_of_boundary_vertices_witness:
  "vert_neighbors_get_mesh (\<lambda>f v. if v = 1 then (if f = 0 then (0, 4) else (4, 2)) else (3, 1))
      [[0], [0, 1], [1]] [] 1 = [0, 4, 2]
   \<and> calc_vert_neighbors_interior (\<lambda>f v. if v = 1 then (if f = 0 then (0, 4) else (4, 2)) else (3, 1))
      [[0], [0, 1], [1]] [True, True, True, True, False, True] [] [1, 0] ! 0 = [0, 2]
   \<and> calc_vert_neighbors_interior (\<lambda>f v. if v = 1 then (if f = 0 then (0, 4) else (4, 2)) else (3, 1))
      [[0], [0, 1], [1]] [True, True, True, True, False, True] [] [1, 0] ! 1 = []
   \<and> vert_neighbors_get_interior_bmesh (\<lambda>v::nat. [(3, 1)]) (\<lambda>v. True) 0 [] = []
   \<and> vert_neighbors_get_interior_bmesh (\<lambda>v::nat. [(3, 1), (1, 4)]) (\<lambda>v. v \<noteq> 4) 0 [] = [3, 1, 1]"
proof -
  let ?adj = "\<lambda>(f::nat) (v::nat). if v = 1 then (if f = 0 then (0, 4) else (4, 2)) else (3, 1::nat)"
  let ?vtf = "[[0], [0, 1], [1::nat]]"
  let ?b = "[True, True, True, True, False, True]"
  have n1: "vert_neighbors_get_mesh ?adj ?vtf [] 1 = [0, 4, 2]"
    by (simp add: vert_neighbors_get_mesh_def append_non_duplicates_def)
  have n0: "vert_neighbors_get_mesh ?adj ?vtf [] 0 = [3, 1]"
    by (simp add: vert_neighbors_get_mesh_def append_non_duplicates_def)
  have c1: "card (set [0, 4, 2 :: nat]) \<noteq> 2" by simp
  have c0: "card (set [3, 1 :: nat]) = 2" by simp
  note main = interior_neighbors_of_boundary_vertices[where verts = "[1, 0]"
      and face_find_adjacent_verts = ?adj and vert_to_face = ?vtf and hide_poly = "[]"
      and boundary_verts = ?b and bm_verts = "[0]" and j = 0]
  have r0: "calc_vert_neighbors_interior ?adj ?vtf ?b [] [1, 0] ! 0 = [0, 2]"
    using main[where i = 0 and loops_of_vert = "\<lambda>v::nat. [(3, 1)]" and vert = 0 and BM_vert_is_boundary = "\<lambda>v. True"]
      n1 c1
    by (simp add: Let_def)
  have r1: "calc_vert_neighbors_interior ?adj ?vtf ?b [] [1, 0] ! 1 = []"
    using main[where i = 1 and loops_of_vert = "\<lambda>v::nat. [(3, 1)]" and vert = 0 and BM_vert_is_boundary = "\<lambda>v. True"]
      n0 c0
    by (simp add: Let_def)
  have m0: "vert_neighbors_get_bmesh (\<lambda>v::nat. [(3, 1)]) 0 [] = [3, 1]"
    by (simp add: vert_neighbors_get_bmesh_def)
  have b0: "vert_neighbors_get_interior_bmesh (\<lambda>v::nat. [(3, 1)]) (\<lambda>v. True) 0 [] = []"
    using main[where i = 0 and loops_of_vert = "\<lambda>v::nat. [(3, 1)]" and vert = 0 and BM_vert_is_boundary = "\<lambda>v. True"]
      m0
    by (simp add: Let_def)
  have m1: "vert_neighbors_get_bmesh (\<lambda>v::nat. [(3, 1), (1, 4)]) 0 [] = [3, 1, 1, 4]"
    by (simp add: vert_neighbors_get_bmesh_def)
  have b1: "vert_neighbors_get_interior_bmesh (\<lambda>v::nat. [(3, 1), (1, 4)]) (\<lambda>v. v \<noteq> 4) 0 [] = [3, 1, 1]"
    using main[where i = 0 and loops_of_vert = "\<lambda>v::nat. [(3, 1), (1, 4)]" and vert = 0
        and BM_vert_is_boundary = "\<lambda>v. v \<noteq> 4"] m1
    by (simp add: Let_def)
  show ?thesis using n1 r0 r1 b0 b1 by simp
qed

section \<open>Mirror clipping of translations\<close>













end
